theory Spec2Isabelle
  imports Main "HOL-Library.AList" "HOL-Library.Multiset" "HOL-Library.Sublist"
begin

section \<open>Data model (src/types/index.ts)\<close>

text \<open>
  JavaScript strings are modelled as \<open>string\<close>; an optional field \<open>f?: T\<close> is a
  \<open>T option\<close>.  A thrown \<open>Error\<close> is a value carrying its message; every function that
  can throw returns \<open>js_error + 'a\<close> with \<open>Inl\<close> for the exception.
\<close>

datatype js_error = Error (message: string)

record EdenChunk =
  eden_data :: string
  eden_epoch :: int

text \<open>
  \<open>LiveSyncDocument\<close>.  The field \<open>pbkdf2salt\<close> is not part of the TypeScript interface;
  \<open>getPBKDF2Salt\<close> reads it through a cast to \<open>any\<close> from the sync-parameters record.
  \<open>eden\<close> is a JavaScript object, kept as the list of its entries in the order
  \<open>Object.entries\<close> enumerates them.
\<close>

record LiveSyncDocument =
  doc_id :: string
  doc_rev :: "string option"
  doc_type :: "string option"
  doc_path :: "string option"
  doc_data :: "string option"
  doc_children :: "string list option"
  doc_eden :: "(string \<times> EdenChunk) list option"
  doc_mtime :: "nat option"
  doc_ctime :: "nat option"
  doc_size :: "nat option"
  doc_deleted :: "bool option"
  doc_couch_deleted :: "bool option"
  doc_pbkdf2salt :: "string option"

record Note =
  note_id :: string
  note_path :: string
  note_content :: string
  note_mtime :: nat
  note_ctime :: nat
  note_size :: nat

text \<open>JavaScript truthiness of an optional string and of an optional boolean.\<close>

fun truthy_str :: "string option \<Rightarrow> bool" where
  "truthy_str None = False"
| "truthy_str (Some s) = (s \<noteq> [])"

fun truthy_bool :: "bool option \<Rightarrow> bool" where
  "truthy_bool None = False"
| "truthy_bool (Some b) = b"

section \<open>Collaborators of the assembler\<close>

text \<open>
  \<open>IDocumentStorage\<close> (src/core/interfaces.ts), as the answers the store gives.  The
  \<open>Map\<close> returned by \<open>getDocuments\<close> is the list of its entries in insertion order;
  \<open>Map.get\<close> is \<open>map_of\<close>.
\<close>

record IDocumentStorage =
  getDocument :: "string \<Rightarrow> js_error + LiveSyncDocument option"
  getDocuments :: "string list \<Rightarrow> js_error + (string \<times> LiveSyncDocument) list"

text \<open>
  Library functions the code calls and this repository does not define:
  \<open>Buffer.from(s, 'base64').toString('utf-8')\<close>, \<open>Buffer.from(s, 'base64')\<close> as bytes, and
  \<open>decrypt\<close> of octagonal-wheels/encryption/hkdf (data, passphrase, salt).
\<close>

record platform =
  base64_utf8 :: "string \<Rightarrow> string"
  base64_bytes :: "string \<Rightarrow> string"
  decryptHKDF :: "string \<Rightarrow> string \<Rightarrow> string \<Rightarrow> js_error + string"

section \<open>LiveSyncCrypto (src/utils/livesync-crypto.ts)\<close>

definition SYNC_PARAMS_DOCID :: string where
  "SYNC_PARAMS_DOCID = ''_local/obsidian_livesync_sync_parameters''"

definition HKDF_PREFIX :: string where
  "HKDF_PREFIX = ''%=''"

text \<open>
  The object's fields, and a ghost counter \<open>salt_requests\<close> of the
  \<open>storage.getDocument(SYNC_PARAMS_DOCID)\<close> calls it has issued.
\<close>

record LiveSyncCrypto =
  passphrase :: string
  pbkdf2Salt :: "string option"
  salt_requests :: nat

definition new_LiveSyncCrypto :: "string \<Rightarrow> LiveSyncCrypto" where
  "new_LiveSyncCrypto p = \<lparr>passphrase = p, pbkdf2Salt = None, salt_requests = 0\<rparr>"

definition salt_error :: "string \<Rightarrow> js_error" where
  "salt_error m = Error (''Failed to load encryption salt: '' @ m)"

definition getPBKDF2Salt ::
  "platform \<Rightarrow> IDocumentStorage \<Rightarrow> LiveSyncCrypto \<Rightarrow> (js_error + string) \<times> LiveSyncCrypto" where
  "getPBKDF2Salt pf st c =
     (case pbkdf2Salt c of
        Some s \<Rightarrow> (Inr s, c)
      | None \<Rightarrow>
          (let c1 = c\<lparr>salt_requests := salt_requests c + 1\<rparr> in
           case getDocument st SYNC_PARAMS_DOCID of
             Inl e \<Rightarrow> (Inl (salt_error (message e)), c1)
           | Inr None \<Rightarrow>
               (Inl (salt_error ''Sync parameters document not found. Make sure the database is a valid LiveSync database with encryption enabled.''), c1)
           | Inr (Some syncParams) \<Rightarrow>
               (if \<not> truthy_str (doc_pbkdf2salt syncParams)
                then (Inl (salt_error ''pbkdf2salt not found in sync parameters document''), c1)
                else (let salt = base64_bytes pf (the (doc_pbkdf2salt syncParams))
                      in (Inr salt, c1\<lparr>pbkdf2Salt := Some salt\<rparr>)))))"

definition isEncrypted :: "string \<Rightarrow> bool" where
  "isEncrypted d = prefix HKDF_PREFIX d"

definition decrypt_error :: "js_error \<Rightarrow> js_error" where
  "decrypt_error e = Error (''Decryption failed: '' @ message e)"

definition decrypt ::
  "platform \<Rightarrow> IDocumentStorage \<Rightarrow> LiveSyncCrypto \<Rightarrow> string \<Rightarrow> (js_error + string) \<times> LiveSyncCrypto" where
  "decrypt pf st c encryptedData =
     (if \<not> isEncrypted encryptedData then (Inr encryptedData, c)
      else (case getPBKDF2Salt pf st c of
              (Inl e, c') \<Rightarrow> (Inl (decrypt_error e), c')
            | (Inr salt, c') \<Rightarrow>
                (case decryptHKDF pf encryptedData (passphrase c') salt of
                   Inl e \<Rightarrow> (Inl (decrypt_error e), c')
                 | Inr decrypted \<Rightarrow> (Inr decrypted, c'))))"

text \<open>A sequence of \<open>decrypt\<close> calls on one object, each awaited before the next.\<close>

fun decrypt_seq ::
  "platform \<Rightarrow> IDocumentStorage \<Rightarrow> LiveSyncCrypto \<Rightarrow> string list \<Rightarrow> (js_error + string) list \<times> LiveSyncCrypto" where
  "decrypt_seq pf st c [] = ([], c)"
| "decrypt_seq pf st c (d # ds) =
     (case decrypt pf st c d of
        (r, c') \<Rightarrow> (case decrypt_seq pf st c' ds of (rs, c'') \<Rightarrow> (r # rs, c'')))"

section \<open>ChunkAssembler (src/core/chunk-assembler.ts)\<close>

text \<open>
  The object's \<open>crypto\<close> field, and a ghost log \<open>bulk_requests\<close> of the argument of every
  \<open>storage.getDocuments\<close> call it has issued.
\<close>

record ChunkAssembler =
  crypto :: "LiveSyncCrypto option"
  bulk_requests :: "string list list"

definition new_ChunkAssembler :: "string option \<Rightarrow> ChunkAssembler" where
  "new_ChunkAssembler pass =
     \<lparr>crypto = (if truthy_str pass then Some (new_LiveSyncCrypto (the pass)) else None),
      bulk_requests = []\<rparr>"

text \<open>
  The block \<open>if (this.crypto) { await this.crypto.decrypt(d) } else
  { Buffer.from(d, 'base64').toString('utf-8') }\<close> that the source repeats at every leaf.
\<close>

definition decodeLeaf ::
  "platform \<Rightarrow> IDocumentStorage \<Rightarrow> ChunkAssembler \<Rightarrow> string \<Rightarrow> (js_error + string) \<times> ChunkAssembler" where
  "decodeLeaf pf st a d =
     (case crypto a of
        Some c \<Rightarrow> (case decrypt pf st c d of (r, c') \<Rightarrow> (r, a\<lparr>crypto := Some c'\<rparr>))
      | None \<Rightarrow> (Inr (base64_utf8 pf d), a))"

text \<open>The \<open>for (const chunkId of children)\<close> loop; the result is the array \<open>chunks\<close>.\<close>

fun childrenLoop ::
  "platform \<Rightarrow> IDocumentStorage \<Rightarrow> (string \<times> LiveSyncDocument) list \<Rightarrow> ChunkAssembler \<Rightarrow> string list
     \<Rightarrow> (js_error + string list) \<times> ChunkAssembler" where
  "childrenLoop pf st chunkDocs a [] = (Inr [], a)"
| "childrenLoop pf st chunkDocs a (chunkId # rest) =
     (case map_of chunkDocs chunkId of
        None \<Rightarrow> (Inl (Error (''Chunk not found: '' @ chunkId)), a)
      | Some chunk \<Rightarrow>
          (if \<not> truthy_str (doc_data chunk)
           then (Inl (Error (''Chunk has no data: '' @ chunkId)), a)
           else (case decodeLeaf pf st a (the (doc_data chunk)) of
                   (Inl e, a') \<Rightarrow> (Inl e, a')
                 | (Inr decryptedChunk, a') \<Rightarrow>
                     (case childrenLoop pf st chunkDocs a' rest of
                        (Inl e, a'') \<Rightarrow> (Inl e, a'')
                      | (Inr chunks, a'') \<Rightarrow> (Inr (decryptedChunk # chunks), a'')))))"

definition assembleFromChildren ::
  "platform \<Rightarrow> IDocumentStorage \<Rightarrow> ChunkAssembler \<Rightarrow> string list \<Rightarrow> (js_error + string) \<times> ChunkAssembler" where
  "assembleFromChildren pf st a children =
     (let a1 = a\<lparr>bulk_requests := bulk_requests a @ [children]\<rparr> in
      case getDocuments st children of
        Inl e \<Rightarrow> (Inl e, a1)
      | Inr chunkDocs \<Rightarrow>
          (case childrenLoop pf st chunkDocs a1 children of
             (Inl e, a') \<Rightarrow> (Inl e, a')
           | (Inr chunks, a') \<Rightarrow> (Inr (concat chunks), a')))"

text \<open>The \<open>for (const [chunkId, chunk] of sortedEntries)\<close> loop.\<close>

fun edenLoop ::
  "platform \<Rightarrow> IDocumentStorage \<Rightarrow> ChunkAssembler \<Rightarrow> (string \<times> EdenChunk) list
     \<Rightarrow> (js_error + string list) \<times> ChunkAssembler" where
  "edenLoop pf st a [] = (Inr [], a)"
| "edenLoop pf st a ((chunkId, chunk) # rest) =
     (case decodeLeaf pf st a (eden_data chunk) of
        (Inl e, a') \<Rightarrow> (Inl e, a')
      | (Inr decrypted, a') \<Rightarrow>
          (case edenLoop pf st a' rest of
             (Inl e, a'') \<Rightarrow> (Inl e, a'')
           | (Inr decryptedChunks, a'') \<Rightarrow> (Inr (decrypted # decryptedChunks), a'')))"

text \<open>
  \<open>Object.entries(eden).sort(([, a], [, b]) => a.epoch - b.epoch)\<close>: \<open>Array.prototype.sort\<close>
  is stable, and so is \<open>sort_key\<close>.
\<close>

definition sortedEntries :: "(string \<times> EdenChunk) list \<Rightarrow> (string \<times> EdenChunk) list" where
  "sortedEntries eden = sort_key (\<lambda>entry. eden_epoch (snd entry)) eden"

definition assembleFromEden ::
  "platform \<Rightarrow> IDocumentStorage \<Rightarrow> ChunkAssembler \<Rightarrow> (string \<times> EdenChunk) list \<Rightarrow> (js_error + string) \<times> ChunkAssembler" where
  "assembleFromEden pf st a eden =
     (case edenLoop pf st a (sortedEntries eden) of
        (Inl e, a') \<Rightarrow> (Inl e, a')
      | (Inr decryptedChunks, a') \<Rightarrow> (Inr (concat decryptedChunks), a'))"

text \<open>\<open>assembleDocument\<close>: \<open>Inr None\<close> is the result \<open>null\<close>.\<close>

definition has_data :: "LiveSyncDocument \<Rightarrow> bool" where
  "has_data doc = truthy_str (doc_data doc)"

definition has_eden :: "LiveSyncDocument \<Rightarrow> bool" where
  "has_eden doc = (case doc_eden doc of None \<Rightarrow> False | Some eden \<Rightarrow> length eden > 0)"

definition has_children :: "LiveSyncDocument \<Rightarrow> bool" where
  "has_children doc = (case doc_children doc of None \<Rightarrow> False | Some children \<Rightarrow> length children > 0)"

definition some_result :: "(js_error + string) \<times> 'a \<Rightarrow> (js_error + string option) \<times> 'a" where
  "some_result r = (case r of (Inl e, a) \<Rightarrow> (Inl e, a) | (Inr s, a) \<Rightarrow> (Inr (Some s), a))"

definition assembleDocument ::
  "platform \<Rightarrow> IDocumentStorage \<Rightarrow> ChunkAssembler \<Rightarrow> LiveSyncDocument \<Rightarrow> (js_error + string option) \<times> ChunkAssembler" where
  "assembleDocument pf st a doc =
     (if has_data doc then some_result (decodeLeaf pf st a (the (doc_data doc)))
      else if has_eden doc then some_result (assembleFromEden pf st a (the (doc_eden doc)))
      else if has_children doc then some_result (assembleFromChildren pf st a (the (doc_children doc)))
      else (Inr None, a))"


text \<open>
  What one payload decodes to in assembler state \<open>a\<close>: the result of the leaf block, its
  text when it succeeds, and whether it succeeds.
\<close>

definition leafResult :: "platform \<Rightarrow> IDocumentStorage \<Rightarrow> ChunkAssembler \<Rightarrow> string \<Rightarrow> js_error + string" where
  "leafResult pf st a d = fst (decodeLeaf pf st a d)"

definition decodes :: "platform \<Rightarrow> IDocumentStorage \<Rightarrow> ChunkAssembler \<Rightarrow> string \<Rightarrow> bool" where
  "decodes pf st a d = (case leafResult pf st a d of Inr s \<Rightarrow> True | Inl e \<Rightarrow> False)"

definition leafText :: "platform \<Rightarrow> IDocumentStorage \<Rightarrow> ChunkAssembler \<Rightarrow> string \<Rightarrow> string" where
  "leafText pf st a d = (case leafResult pf st a d of Inr s \<Rightarrow> s | Inl e \<Rightarrow> [])"

text \<open>The store holds a usable salt record: present, with a non-empty \<open>pbkdf2salt\<close>.\<close>

definition salt_available :: "IDocumentStorage \<Rightarrow> bool" where
  "salt_available st =
     (case getDocument st SYNC_PARAMS_DOCID of
        Inl e \<Rightarrow> False
      | Inr None \<Rightarrow> False
      | Inr (Some syncParams) \<Rightarrow> truthy_str (doc_pbkdf2salt syncParams))"

text \<open>
  The decoded content of a payload, as the specification words it (sections 4.1 and
  4.2) and written without the assembler's code, to compare the code against: with no
  passphrase configured, the base64 decoding of the payload; with one, the payload
  itself when it does not start with the two-character marker, and otherwise its HKDF
  decryption under the passphrase and the salt.  The salt is the one the adapter has
  cached, or else the base64-decoded \<open>pbkdf2salt\<close> of the store's sync-parameters
  record.  \<open>None\<close>: there is no decoded content (no usable salt, or the decryption
  fails).  The marker \<open>%=\<close> and the id of the record are the constants of
  \<open>livesync-crypto.ts\<close>, which the specification leaves unnamed.
\<close>

definition salt_in_use :: "platform \<Rightarrow> IDocumentStorage \<Rightarrow> LiveSyncCrypto \<Rightarrow> string option" where
  "salt_in_use pf st c =
     (case pbkdf2Salt c of
        Some cached \<Rightarrow> Some cached
      | None \<Rightarrow>
          (case getDocument st ''_local/obsidian_livesync_sync_parameters'' of
             Inl e \<Rightarrow> None
           | Inr None \<Rightarrow> None
           | Inr (Some record) \<Rightarrow>
               (case doc_pbkdf2salt record of
                  None \<Rightarrow> None
                | Some saltBase64 \<Rightarrow> if saltBase64 = [] then None else Some (base64_bytes pf saltBase64))))"

definition decoded_content :: "platform \<Rightarrow> IDocumentStorage \<Rightarrow> ChunkAssembler \<Rightarrow> string \<Rightarrow> string option" where
  "decoded_content pf st a payload =
     (case crypto a of
        None \<Rightarrow> Some (base64_utf8 pf payload)
      | Some c \<Rightarrow>
          (if take 2 payload \<noteq> ''%='' then Some payload
           else (case salt_in_use pf st c of
                   None \<Rightarrow> None
                 | Some salt \<Rightarrow>
                     (case decryptHKDF pf payload (passphrase c) salt of
                        Inl e \<Rightarrow> None
                      | Inr plaintext \<Rightarrow> Some plaintext))))"

section \<open>Note repositories (src/repositories)\<close>

text \<open>
  \<open>String.prototype.toLowerCase\<close>, \<open>includes\<close> and \<open>trim\<close>, for ASCII text only:
  \<open>toLowerCase\<close> lowers the letters A to Z and \<open>trim\<close> strips space, TAB, LF, VT, FF
  and CR.  The JavaScript functions also fold letters and strip white space outside
  ASCII (U+00A0, U+FEFF, U+2028 and others); strings holding such characters are
  outside this model.
\<close>

definition lower_char :: "char \<Rightarrow> char" where
  "lower_char c =
     (case map_of (zip ''ABCDEFGHIJKLMNOPQRSTUVWXYZ'' ''abcdefghijklmnopqrstuvwxyz'') c of
        Some l \<Rightarrow> l
      | None \<Rightarrow> c)"

definition toLowerCase :: "string \<Rightarrow> string" where
  "toLowerCase s = map lower_char s"

fun str_includes :: "string \<Rightarrow> string \<Rightarrow> bool" where
  "str_includes [] q = (q = [])"
| "str_includes (c # cs) q = (prefix q (c # cs) \<or> str_includes cs q)"

definition is_whitespace :: "char \<Rightarrow> bool" where
  "is_whitespace c = (c \<in> set [CHR '' '', CHR 0x09, CHR 0x0A, CHR 0x0B, CHR 0x0C, CHR 0x0D])"

definition trim :: "string \<Rightarrow> string" where
  "trim s = rev (dropWhile is_whitespace (rev (dropWhile is_whitespace s)))"

text \<open>The filter predicate both repositories use, \<open>lower\<close> being the lowered query.\<close>

definition matches :: "string \<Rightarrow> Note \<Rightarrow> bool" where
  "matches lower note =
     (str_includes (toLowerCase (note_path note)) lower \<or> str_includes (toLowerCase (note_content note)) lower)"

text \<open>
  \<open>MemoryNoteRepository\<close>: the field \<open>notes\<close>, a \<open>Map<string, Note>\<close>, as the list of its
  entries in insertion order.  \<open>Map.set\<close> replaces the value of a key in place or appends
  a new entry (\<open>AList.update\<close>); \<open>Map.delete\<close> removes the entry (\<open>AList.delete\<close>).
\<close>

type_synonym note_map = "(string \<times> Note) list"

definition MemoryNoteRepository_saveMany :: "note_map \<Rightarrow> Note list \<Rightarrow> note_map" where
  "MemoryNoteRepository_saveMany notes ns = fold (\<lambda>note m. AList.update (note_id note) note m) ns notes"

definition MemoryNoteRepository_deleteMany :: "note_map \<Rightarrow> string list \<Rightarrow> note_map" where
  "MemoryNoteRepository_deleteMany notes ids = fold AList.delete ids notes"


definition MemoryNoteRepository_getAll :: "note_map \<Rightarrow> Note list" where
  "MemoryNoteRepository_getAll notes = map snd notes"

definition MemoryNoteRepository_search :: "note_map \<Rightarrow> string \<Rightarrow> Note list" where
  "MemoryNoteRepository_search notes query =
     (let lower = toLowerCase query in filter (matches lower) (map snd notes))"

definition MemoryNoteRepository_count :: "note_map \<Rightarrow> nat" where
  "MemoryNoteRepository_count notes = length notes"

text \<open>
  \<open>DiskNoteRepository.search\<close>.  Its \<open>getAll\<close> reads the vault directory; the outcome of
  that read is the parameter \<open>getAll\<close>.
\<close>

definition DiskNoteRepository_search :: "(js_error + Note list) \<Rightarrow> string \<Rightarrow> js_error + Note list" where
  "DiskNoteRepository_search getAll query =
     (if trim query = [] then Inr []
      else (let lower = toLowerCase query in
            case getAll of
              Inl e \<Rightarrow> Inl e
            | Inr notes \<Rightarrow> Inr (filter (matches lower) notes)))"
















section \<open>SyncService (src/services/sync-service.ts)\<close>

record SyncStatus =
  isRunning :: bool
  lastSyncTime :: "nat option"
  lastSyncSuccess :: bool
  documentsCount :: nat
  lastSeq :: "string option"
  error :: "string option"

text \<open>The persisted state of \<open>IStateStorage\<close>, also the \<open>Partial\<close> given to \<open>updateState\<close>.\<close>

record SyncState =
  state_lastSeq :: "string option"
  state_lastSyncTime :: "nat option"

text \<open>One row of the changes feed, and the feed; \<open>last_seq\<close> is \<open>String(changes.last_seq)\<close>.\<close>

record ChangeItem =
  change_id :: string
  change_deleted :: "bool option"
  change_doc :: "LiveSyncDocument option"

record DatabaseChangesResponse =
  results :: "ChangeItem list option"
  last_seq :: string

text \<open>
  The collaborators a \<open>SyncService\<close> is constructed with (\<open>client\<close>, \<open>stateStorage\<close>,
  \<open>assembler\<close>, \<open>repository\<close>) and \<open>new Date()\<close>, as transformers of an outside world
  \<open>'w\<close>: each call returns its answer or the error it throws, and the world after it.
  \<open>client_getDatabaseInfo\<close> answers \<open>String(dbInfo.update_seq)\<close>.
\<close>

record 'w collaborators =
  client_getAllDocuments :: "'w \<Rightarrow> (js_error + LiveSyncDocument list) \<times> 'w"
  client_getDatabaseInfo :: "'w \<Rightarrow> (js_error + string) \<times> 'w"
  client_getChanges :: "string option \<Rightarrow> 'w \<Rightarrow> (js_error + DatabaseChangesResponse) \<times> 'w"
  assembler_assembleDocument :: "LiveSyncDocument \<Rightarrow> 'w \<Rightarrow> (js_error + string option) \<times> 'w"
  repository_saveMany :: "Note list \<Rightarrow> 'w \<Rightarrow> (js_error + unit) \<times> 'w"
  repository_deleteMany :: "string list \<Rightarrow> 'w \<Rightarrow> (js_error + unit) \<times> 'w"
  repository_count :: "'w \<Rightarrow> (js_error + nat) \<times> 'w"
  stateStorage_getState :: "'w \<Rightarrow> (js_error + SyncState) \<times> 'w"
  stateStorage_updateState :: "SyncState \<Rightarrow> 'w \<Rightarrow> (js_error + unit) \<times> 'w"
  clock :: "'w \<Rightarrow> nat"

text \<open>
  The calls a \<open>SyncService\<close> issues.  The ghost field \<open>trace\<close> lists them in the order
  they were issued, each with whether it resolved (\<open>ev_resolved\<close>) or rejected, and
  with the value \<open>status.isRunning\<close> had while the call was pending (\<open>ev_guarded\<close>).
  Every call in the source is awaited, so a call has completed and is in the trace
  before the next one is issued.
\<close>

datatype call =
    GetAllDocuments
  | GetDatabaseInfo
  | GetChanges "string option"
  | AssembleDocument LiveSyncDocument
  | SaveMany "Note list"
  | DeleteMany "string list"
  | Count
  | GetState
  | UpdateState SyncState

record event =
  ev_call :: call
  ev_resolved :: bool
  ev_guarded :: bool

record 'w SyncService =
  status :: SyncStatus
  world :: 'w
  trace :: "event list"

definition new_SyncService :: "'w \<Rightarrow> 'w SyncService" where
  "new_SyncService w =
     \<lparr>status = \<lparr>isRunning = False, lastSyncTime = None, lastSyncSuccess = False,
                 documentsCount = 0, lastSeq = None, error = None\<rparr>,
      world = w, trace = []\<rparr>"

definition perform ::
  "call \<Rightarrow> ('w \<Rightarrow> (js_error + 'a) \<times> 'w) \<Rightarrow> 'w SyncService \<Rightarrow> (js_error + 'a) \<times> 'w SyncService" where
  "perform c f s =
     (case f (world s) of
        (r, w') \<Rightarrow>
          (r, s\<lparr>world := w',
                trace := trace s @ [\<lparr>ev_call = c, ev_resolved = \<not> isl r,
                                      ev_guarded = isRunning (status s)\<rparr>]\<rparr>))"

text \<open>\<open>const x = await m; k x\<close>: an exception of \<open>m\<close> skips the continuation.\<close>

definition await ::
  "('s \<Rightarrow> (js_error + 'a) \<times> 's) \<Rightarrow> ('a \<Rightarrow> 's \<Rightarrow> (js_error + 'b) \<times> 's) \<Rightarrow> 's \<Rightarrow> (js_error + 'b) \<times> 's" where
  "await m k s = (case m s of (Inl e, s') \<Rightarrow> (Inl e, s') | (Inr x, s') \<Rightarrow> k x s')"

definition resolve :: "'a \<Rightarrow> 's \<Rightarrow> (js_error + 'a) \<times> 's" where
  "resolve x s = (Inr x, s)"

definition set_status :: "(SyncStatus \<Rightarrow> SyncStatus) \<Rightarrow> 'w SyncService \<Rightarrow> 'w SyncService" where
  "set_status f s = s\<lparr>status := f (status s)\<rparr>"

definition initialize :: "'w collaborators \<Rightarrow> 'w SyncService \<Rightarrow> (js_error + unit) \<times> 'w SyncService" where
  "initialize co =
     await (perform GetState (stateStorage_getState co)) (\<lambda>state s.
       if truthy_str (state_lastSeq state)
       then (Inr (), set_status (\<lambda>st. st\<lparr>lastSeq := state_lastSeq state\<rparr>) s)
       else (Inr (), s))"

text \<open>\<open>processDocuments\<close>: the six \<open>continue\<close> tests that count a document as skipped.\<close>

definition skipped :: "LiveSyncDocument \<Rightarrow> bool" where
  "skipped doc =
     (prefix ''h:'' (doc_id doc) \<or> prefix ''h:+'' (doc_id doc)
      \<or> CHR '':'' \<in> set (doc_id doc)
      \<or> truthy_bool (doc_deleted doc) \<or> truthy_bool (doc_couch_deleted doc)
      \<or> \<not> truthy_str (doc_path doc)
      \<or> \<not> truthy_str (doc_type doc)
      \<or> (doc_type doc \<noteq> Some ''newnote'' \<and> doc_type doc \<noteq> Some ''plain''))"

record counts =
  processedCount :: nat
  skippedCount :: nat
  errorCount :: nat

text \<open>\<open>x ? new Date(x) : new Date()\<close> and \<open>doc.size || 0\<close>.\<close>

definition date_or_now :: "nat option \<Rightarrow> nat \<Rightarrow> nat" where
  "date_or_now x now = (case x of None \<Rightarrow> now | Some t \<Rightarrow> if t = 0 then now else t)"

definition make_note :: "LiveSyncDocument \<Rightarrow> string \<Rightarrow> nat \<Rightarrow> Note" where
  "make_note doc content now =
     \<lparr>note_id = doc_id doc, note_path = the (doc_path doc), note_content = content,
      note_mtime = date_or_now (doc_mtime doc) now, note_ctime = date_or_now (doc_ctime doc) now,
      note_size = (case doc_size doc of None \<Rightarrow> 0 | Some n \<Rightarrow> n)\<rparr>"

text \<open>
  The \<open>for (const doc of documents)\<close> loop with its counters and \<open>notesToSave\<close>; the
  \<open>try\<close>/\<open>catch\<close> around the assembler turns its exception into \<open>errorCount++\<close>.
\<close>

fun processLoop ::
  "'w collaborators \<Rightarrow> LiveSyncDocument list \<Rightarrow> counts \<Rightarrow> Note list \<Rightarrow> 'w SyncService
     \<Rightarrow> (counts \<times> Note list) \<times> 'w SyncService" where
  "processLoop co [] n notesToSave s = ((n, notesToSave), s)"
| "processLoop co (doc # documents) n notesToSave s =
     (if skipped doc
      then processLoop co documents (n\<lparr>skippedCount := skippedCount n + 1\<rparr>) notesToSave s
      else (case perform (AssembleDocument doc) (assembler_assembleDocument co doc) s of
              (Inl e, s') \<Rightarrow>
                processLoop co documents (n\<lparr>errorCount := errorCount n + 1\<rparr>) notesToSave s'
            | (Inr None, s') \<Rightarrow>
                processLoop co documents (n\<lparr>errorCount := errorCount n + 1\<rparr>) notesToSave s'
            | (Inr (Some content), s') \<Rightarrow>
                processLoop co documents (n\<lparr>processedCount := processedCount n + 1\<rparr>)
                  (notesToSave @ [make_note doc content (clock co (world s'))]) s'))"

definition processDocuments ::
  "'w collaborators \<Rightarrow> LiveSyncDocument list \<Rightarrow> 'w SyncService \<Rightarrow> (js_error + counts) \<times> 'w SyncService" where
  "processDocuments co documents s =
     (case processLoop co documents \<lparr>processedCount = 0, skippedCount = 0, errorCount = 0\<rparr> [] s of
        ((n, notesToSave), s1) \<Rightarrow>
          (if length notesToSave > 0
           then await (perform (SaveMany notesToSave) (repository_saveMany co notesToSave))
                  (\<lambda>u. resolve n) s1
           else (Inr n, s1)))"

text \<open>
  \<open>try { body } catch (error) { lastSyncSuccess = false; error = error.message; throw }
  finally { isRunning = false }\<close>, as \<open>fullSync\<close> and \<open>incrementalSync\<close> both have it.
\<close>

definition try_catch_finally ::
  "('w SyncService \<Rightarrow> (js_error + unit) \<times> 'w SyncService) \<Rightarrow> 'w SyncService
     \<Rightarrow> (js_error + unit) \<times> 'w SyncService" where
  "try_catch_finally body s =
     (case body s of
        (Inl e, s') \<Rightarrow>
          (Inl e, set_status (\<lambda>st. st\<lparr>isRunning := False\<rparr>)
                    (set_status (\<lambda>st. st\<lparr>lastSyncSuccess := False, error := Some (message e)\<rparr>) s'))
      | (Inr u, s') \<Rightarrow> (Inr u, set_status (\<lambda>st. st\<lparr>isRunning := False\<rparr>) s'))"

text \<open>
  The \<open>try\<close> block of \<open>fullSync\<close>, in two parts: fetching and processing the documents,
  then \<open>fullSync_finish\<close>, everything from \<open>getDatabaseInfo\<close> on.
\<close>

definition fullSync_finish ::
  "'w collaborators \<Rightarrow> counts \<Rightarrow> 'w SyncService \<Rightarrow> (js_error + unit) \<times> 'w SyncService" where
  "fullSync_finish co result =
     await (perform GetDatabaseInfo (client_getDatabaseInfo co)) (\<lambda>update_seq s3.
     await (perform Count (repository_count co)) (\<lambda>notesCount s5.
       (let s6 = set_status (\<lambda>st. st\<lparr>lastSyncTime := Some (clock co (world s5)),
                                       lastSyncSuccess := True,
                                       documentsCount := processedCount result,
                                       error := None\<rparr>) s5
        in await (perform (UpdateState \<lparr>state_lastSeq = lastSeq (status s6),
                                          state_lastSyncTime = Some (clock co (world s6))\<rparr>)
                    (stateStorage_updateState co \<lparr>state_lastSeq = lastSeq (status s6),
                                                   state_lastSyncTime = Some (clock co (world s6))\<rparr>))
             (\<lambda>u. resolve ()) s6))
       (set_status (\<lambda>st. st\<lparr>lastSeq := Some update_seq\<rparr>) s3))"

definition fullSync_try :: "'w collaborators \<Rightarrow> 'w SyncService \<Rightarrow> (js_error + unit) \<times> 'w SyncService" where
  "fullSync_try co =
     await (perform GetAllDocuments (client_getAllDocuments co)) (\<lambda>documents.
     await (processDocuments co documents) (\<lambda>result.
     fullSync_finish co result))"

definition fullSync :: "'w collaborators \<Rightarrow> 'w SyncService \<Rightarrow> (js_error + unit) \<times> 'w SyncService" where
  "fullSync co s =
     (if isRunning (status s) then (Inr (), s)
      else try_catch_finally (fullSync_try co) (set_status (\<lambda>st. st\<lparr>isRunning := True\<rparr>) s))"

text \<open>
  The loop of \<open>incrementalSync\<close> that separates \<open>changedDocs\<close> from \<open>deletedIds\<close>;
  \<open>doc?.deleted\<close> of an absent \<open>doc\<close> is \<open>undefined\<close>.
\<close>

definition change_is_deleted :: "ChangeItem \<Rightarrow> bool" where
  "change_is_deleted change =
     (truthy_bool (change_deleted change)
      \<or> (case change_doc change of None \<Rightarrow> False | Some d \<Rightarrow> truthy_bool (doc_deleted d))
      \<or> (case change_doc change of None \<Rightarrow> False | Some d \<Rightarrow> truthy_bool (doc_couch_deleted d)))"

fun separate :: "ChangeItem list \<Rightarrow> LiveSyncDocument list \<times> string list" where
  "separate [] = ([], [])"
| "separate (change # rest) =
     (case separate rest of
        (changedDocs, deletedIds) \<Rightarrow>
          (if CHR '':'' \<in> set (change_id change) then (changedDocs, deletedIds)
           else if change_is_deleted change then (changedDocs, change_id change # deletedIds)
           else (case change_doc change of
                   Some d \<Rightarrow> (d # changedDocs, deletedIds)
                 | None \<Rightarrow> (changedDocs, deletedIds))))"

definition no_changes :: "DatabaseChangesResponse \<Rightarrow> bool" where
  "no_changes changes = (case results changes of None \<Rightarrow> True | Some rs \<Rightarrow> length rs = 0)"

text \<open>
  The \<open>try\<close> block of \<open>incrementalSync\<close>.  \<open>incrementalSync_finish\<close> is everything after
  the \<open>deleteMany\<close>, from the assignment of \<open>status.lastSeq\<close> on.
\<close>

definition incrementalSync_finish ::
  "'w collaborators \<Rightarrow> DatabaseChangesResponse \<Rightarrow> nat \<Rightarrow> 'w SyncService
     \<Rightarrow> (js_error + unit) \<times> 'w SyncService" where
  "incrementalSync_finish co changes processedChanged s3 =
     (let s4 = set_status (\<lambda>st. st\<lparr>lastSeq := Some (last_seq changes),
                                     lastSyncTime := Some (clock co (world s3)),
                                     lastSyncSuccess := True,
                                     documentsCount := processedChanged,
                                     error := None\<rparr>) s3
      in await (perform (UpdateState \<lparr>state_lastSeq = lastSeq (status s4),
                                        state_lastSyncTime = Some (clock co (world s4))\<rparr>)
                  (stateStorage_updateState co \<lparr>state_lastSeq = lastSeq (status s4),
                                                 state_lastSyncTime = Some (clock co (world s4))\<rparr>))
           (\<lambda>u. await (perform Count (repository_count co)) (\<lambda>notesCount. resolve ())) s4)"

definition incrementalSync_apply ::
  "'w collaborators \<Rightarrow> LiveSyncDocument list \<Rightarrow> string list \<Rightarrow> 'w SyncService
     \<Rightarrow> (js_error + nat) \<times> 'w SyncService" where
  "incrementalSync_apply co changedDocs deletedIds =
     await (if length changedDocs > 0
            then await (processDocuments co changedDocs) (\<lambda>result. resolve (processedCount result))
            else resolve 0) (\<lambda>processedChanged.
     await (if length deletedIds > 0
            then perform (DeleteMany deletedIds) (repository_deleteMany co deletedIds)
            else resolve ()) (\<lambda>u.
     resolve processedChanged))"

definition incrementalSync_try :: "'w collaborators \<Rightarrow> 'w SyncService \<Rightarrow> (js_error + unit) \<times> 'w SyncService" where
  "incrementalSync_try co s0 =
     await (perform (GetChanges (lastSeq (status s0))) (client_getChanges co (lastSeq (status s0))))
       (\<lambda>changes s1.
         if no_changes changes
         then (Inr (), set_status (\<lambda>st. st\<lparr>lastSyncTime := Some (clock co (world s1)),
                                             lastSyncSuccess := True,
                                             documentsCount := 0,
                                             error := None\<rparr>) s1)
         else (case separate (the (results changes)) of
                 (changedDocs, deletedIds) \<Rightarrow>
                   await (incrementalSync_apply co changedDocs deletedIds)
                     (incrementalSync_finish co changes) s1))
       s0"

definition incrementalSync :: "'w collaborators \<Rightarrow> 'w SyncService \<Rightarrow> (js_error + unit) \<times> 'w SyncService" where
  "incrementalSync co s =
     (if isRunning (status s) then (Inr (), s)
      else try_catch_finally (incrementalSync_try co) (set_status (\<lambda>st. st\<lparr>isRunning := True\<rparr>) s))"

definition sync :: "'w collaborators \<Rightarrow> 'w SyncService \<Rightarrow> (js_error + unit) \<times> 'w SyncService" where
  "sync co s =
     (if isRunning (status s) then (Inr (), s)
      else if \<not> truthy_str (lastSeq (status s)) then fullSync co s
      else incrementalSync co s)"


section \<open>Properties of traces\<close>

fun is_note_write :: "call \<Rightarrow> bool" where
  "is_note_write (SaveMany ns) = True"
| "is_note_write (DeleteMany ids) = True"
| "is_note_write c = False"

fun is_cursor_write :: "call \<Rightarrow> bool" where
  "is_cursor_write (UpdateState p) = True"
| "is_cursor_write c = False"

fun is_delete :: "call \<Rightarrow> bool" where
  "is_delete (DeleteMany ids) = True"
| "is_delete c = False"

fun is_store_read :: "call \<Rightarrow> bool" where
  "is_store_read GetAllDocuments = True"
| "is_store_read GetDatabaseInfo = True"
| "is_store_read (GetChanges since) = True"
| "is_store_read c = False"

fun saved_by :: "call \<Rightarrow> Note list" where
  "saved_by (SaveMany ns) = ns"
| "saved_by c = []"

text \<open>The ids of the notes a list of events upserts.\<close>

definition upserted_ids :: "event list \<Rightarrow> string set" where
  "upserted_ids evs = set (map note_id (concat (map (\<lambda>e. saved_by (ev_call e)) evs)))"

text \<open>
  No note write follows a cursor write, and a note write that rejected is followed by
  no cursor write.
\<close>

fun cursor_after_writes :: "event list \<Rightarrow> bool" where
  "cursor_after_writes [] = True"
| "cursor_after_writes (e # es) =
     (if is_cursor_write (ev_call e)
      then list_all (\<lambda>x. \<not> is_note_write (ev_call x)) es \<and> cursor_after_writes es
      else if is_note_write (ev_call e) \<and> \<not> ev_resolved e
      then list_all (\<lambda>x. \<not> is_cursor_write (ev_call x)) es \<and> cursor_after_writes es
      else cursor_after_writes es)"

text \<open>
  The repository behind \<open>co\<close> is a \<open>MemoryNoteRepository\<close> whose field \<open>notes\<close> is
  \<open>notes_of\<close> the world, and no other collaborator touches it.
\<close>

definition memory_backed :: "'w collaborators \<Rightarrow> ('w \<Rightarrow> note_map) \<Rightarrow> bool" where
  "memory_backed co notes_of =
     ((\<forall>w. notes_of (snd (client_getAllDocuments co w)) = notes_of w)
      \<and> (\<forall>w. notes_of (snd (client_getDatabaseInfo co w)) = notes_of w)
      \<and> (\<forall>since w. notes_of (snd (client_getChanges co since w)) = notes_of w)
      \<and> (\<forall>doc w. notes_of (snd (assembler_assembleDocument co doc w)) = notes_of w)
      \<and> (\<forall>w. notes_of (snd (repository_count co w)) = notes_of w)
      \<and> (\<forall>w. notes_of (snd (stateStorage_getState co w)) = notes_of w)
      \<and> (\<forall>p w. notes_of (snd (stateStorage_updateState co p w)) = notes_of w)
      \<and> (\<forall>ns w. notes_of (snd (repository_saveMany co ns w))
            = MemoryNoteRepository_saveMany (notes_of w) ns)
      \<and> (\<forall>ids w. notes_of (snd (repository_deleteMany co ids w))
            = MemoryNoteRepository_deleteMany (notes_of w) ids))"

text \<open>
  Phases of a pass, for events issued under guard value \<open>g\<close>: \<open>reads_only\<close> events write
  neither notes nor the cursor; \<open>clean\<close> events do not write the cursor, and their note
  writes resolved when the phase itself resolved (\<open>ok\<close>); \<open>no_writes\<close> events write no
  notes.  \<open>pass_shape\<close> relates the states before and after a \<open>try\<close> block.
\<close>

definition reads_only :: "bool \<Rightarrow> event list \<Rightarrow> bool" where
  "reads_only g evs =
     list_all (\<lambda>e. ev_guarded e = g \<and> \<not> is_note_write (ev_call e) \<and> \<not> is_cursor_write (ev_call e)) evs"

definition clean :: "bool \<Rightarrow> bool \<Rightarrow> event list \<Rightarrow> bool" where
  "clean g ok evs =
     list_all (\<lambda>e. ev_guarded e = g \<and> \<not> is_cursor_write (ev_call e)
                  \<and> (if ok \<and> is_note_write (ev_call e) then ev_resolved e else True)) evs"

definition no_writes :: "bool \<Rightarrow> event list \<Rightarrow> bool" where
  "no_writes g evs = list_all (\<lambda>e. ev_guarded e = g \<and> \<not> is_note_write (ev_call e)) evs"

definition pass_shape :: "'w SyncService \<Rightarrow> 'w SyncService \<Rightarrow> event list \<Rightarrow> bool" where
  "pass_shape s s' evs =
     (trace s' = trace s @ evs
      \<and> list_all (\<lambda>e. ev_guarded e = isRunning (status s)) evs
      \<and> cursor_after_writes evs
      \<and> isRunning (status s') = isRunning (status s))"
section \<open>Sample collaborators and records\<close>

text \<open>
  Concrete instances on which the theorems below are run.  \<open>sample_base64\<close> decodes the
  standard base64 alphabet, skipping other characters and stopping at the padding; it
  agrees with \<open>Buffer.from(s, 'base64').toString('utf-8')\<close> on standard-alphabet input
  that decodes to ASCII, which is all it is applied to (Node also accepts the URL-safe
  alphabet and replaces invalid UTF-8).  \<open>sample_decryptHKDF\<close> stands in for the
  cipher: under the passphrase \<open>pw\<close> and the salt \<open>salt\<close> the plaintext is the
  ciphertext behind the marker, reversed.
\<close>

definition b64_alphabet :: string where
  "b64_alphabet = ''ABCDEFGHIJKLMNOPQRSTUVWXYZabcdefghijklmnopqrstuvwxyz0123456789+/''"

fun index_of :: "'a \<Rightarrow> 'a list \<Rightarrow> nat option" where
  "index_of x [] = None"
| "index_of x (y # ys) = (if x = y then Some 0 else map_option Suc (index_of x ys))"

fun sextets :: "string \<Rightarrow> nat list" where
  "sextets [] = []"
| "sextets (c # cs) =
     (if c = CHR ''='' then []
      else (case index_of c b64_alphabet of None \<Rightarrow> sextets cs | Some n \<Rightarrow> n # sextets cs))"

fun octets :: "nat list \<Rightarrow> nat list" where
  "octets (a # b # c # d # r) = (a * 4 + b div 16) # ((b mod 16) * 16 + c div 4) # ((c mod 4) * 64 + d) # octets r"
| "octets [a, b, c] = [a * 4 + b div 16, (b mod 16) * 16 + c div 4]"
| "octets [a, b] = [a * 4 + b div 16]"
| "octets _ = []"

definition sample_base64 :: "string \<Rightarrow> string" where
  "sample_base64 s = map char_of (octets (sextets s))"

definition sample_decryptHKDF :: "string \<Rightarrow> string \<Rightarrow> string \<Rightarrow> js_error + string" where
  "sample_decryptHKDF d p salt =
     (if p = ''pw'' \<and> salt = ''salt'' then Inr (rev (drop 2 d)) else Inl (Error ''wrong passphrase''))"

definition sample_platform :: platform where
  "sample_platform =
     \<lparr>base64_utf8 = sample_base64, base64_bytes = sample_base64, decryptHKDF = sample_decryptHKDF\<rparr>"

definition blank_doc :: "string \<Rightarrow> LiveSyncDocument" where
  "blank_doc i =
     \<lparr>doc_id = i, doc_rev = None, doc_type = None, doc_path = None, doc_data = None,
      doc_children = None, doc_eden = None, doc_mtime = None, doc_ctime = None, doc_size = None,
      doc_deleted = None, doc_couch_deleted = None, doc_pbkdf2salt = None\<rparr>"

definition sample_chunks :: "(string \<times> LiveSyncDocument) list" where
  "sample_chunks =
     [(''b'', (blank_doc ''b'')\<lparr>doc_type := Some ''leaf'', doc_data := Some ''Qg==''\<rparr>),
      (''a'', (blank_doc ''a'')\<lparr>doc_type := Some ''leaf'', doc_data := Some ''QQ==''\<rparr>),
      (''e'', (blank_doc ''e'')\<lparr>doc_type := Some ''leaf'', doc_data := Some ''''\<rparr>)]"

definition sample_storage :: IDocumentStorage where
  "sample_storage =
     \<lparr>getDocument = (\<lambda>i. Inr None),
      getDocuments = (\<lambda>ids. Inr (filter (\<lambda>row. fst row \<in> set ids) sample_chunks))\<rparr>"

definition sample_children_doc :: LiveSyncDocument where
  "sample_children_doc = (blank_doc ''note.md'')\<lparr>doc_children := Some [''a'', ''b'']\<rparr>"

definition sample_empty_chunk_doc :: LiveSyncDocument where
  "sample_empty_chunk_doc = (blank_doc ''note.md'')\<lparr>doc_children := Some [''e'']\<rparr>"

definition sample_eden :: "(string \<times> EdenChunk) list" where
  "sample_eden =
     [(''c1'', \<lparr>eden_data = ''Rmlyc3Qg'', eden_epoch = 2\<rparr>),
      (''c2'', \<lparr>eden_data = ''U2Vjb25k'', eden_epoch = 1\<rparr>)]"

definition sample_eden_doc :: LiveSyncDocument where
  "sample_eden_doc = (blank_doc ''note.md'')\<lparr>doc_eden := Some sample_eden\<rparr>"

definition storage_without_salt :: IDocumentStorage where
  "storage_without_salt = \<lparr>getDocument = (\<lambda>i. Inr None), getDocuments = (\<lambda>ids. Inr [])\<rparr>"

definition storage_with_salt :: IDocumentStorage where
  "storage_with_salt =
     \<lparr>getDocument = (\<lambda>i. if i = SYNC_PARAMS_DOCID
                          then Inr (Some ((blank_doc i)\<lparr>doc_pbkdf2salt := Some ''c2FsdA==''\<rparr>))
                          else Inr None),
      getDocuments = (\<lambda>ids. Inr [])\<rparr>"

definition sample_inline_doc :: LiveSyncDocument where
  "sample_inline_doc = (blank_doc ''hello.md'')\<lparr>doc_data := Some ''SGVsbG8gV29ybGQ=''\<rparr>"

definition sample_all_sources_doc :: LiveSyncDocument where
  "sample_all_sources_doc =
     (blank_doc ''note.md'')\<lparr>doc_data := Some ''SGVsbG8gV29ybGQ='', doc_eden := Some sample_eden,
                              doc_children := Some [''a'', ''b'']\<rparr>"

text \<open>
  A world for a \<open>SyncService\<close>: a \<open>MemoryNoteRepository\<close>, a state store that merges a
  partial state into the stored one as \<open>JsonFileStorage.updateState\<close> does
  (\<open>{...currentState, ...partial}\<close>), and a \<open>ChunkAssembler\<close> over the sample store.
  In the partial state \<open>None\<close> stands for a key that is absent; \<open>SyncService\<close> always
  passes both keys with a value.
\<close>

record sample_world =
  sw_notes :: note_map
  sw_state :: SyncState
  sw_assembler :: ChunkAssembler

definition JsonFileStorage_updateState :: "SyncState \<Rightarrow> SyncState \<Rightarrow> SyncState" where
  "JsonFileStorage_updateState currentState partial =
     \<lparr>state_lastSeq = (case state_lastSeq partial of None \<Rightarrow> state_lastSeq currentState | Some x \<Rightarrow> Some x),
      state_lastSyncTime = (case state_lastSyncTime partial of None \<Rightarrow> state_lastSyncTime currentState | Some t \<Rightarrow> Some t)\<rparr>"

definition sample_collaborators ::
  "(js_error + LiveSyncDocument list) \<Rightarrow> DatabaseChangesResponse \<Rightarrow> sample_world collaborators" where
  "sample_collaborators all_docs changes =
     \<lparr>client_getAllDocuments = (\<lambda>w. (all_docs, w)),
      client_getDatabaseInfo = (\<lambda>w. (Inr ''123-abc'', w)),
      client_getChanges = (\<lambda>since w. (Inr changes, w)),
      assembler_assembleDocument =
        (\<lambda>doc w. case assembleDocument sample_platform sample_storage (sw_assembler w) doc of
                    (r, a') \<Rightarrow> (r, w\<lparr>sw_assembler := a'\<rparr>)),
      repository_saveMany = (\<lambda>ns w. (Inr (), w\<lparr>sw_notes := MemoryNoteRepository_saveMany (sw_notes w) ns\<rparr>)),
      repository_deleteMany = (\<lambda>ids w. (Inr (), w\<lparr>sw_notes := MemoryNoteRepository_deleteMany (sw_notes w) ids\<rparr>)),
      repository_count = (\<lambda>w. (Inr (MemoryNoteRepository_count (sw_notes w)), w)),
      stateStorage_getState = (\<lambda>w. (Inr (sw_state w), w)),
      stateStorage_updateState = (\<lambda>p w. (Inr (), w\<lparr>sw_state := JsonFileStorage_updateState (sw_state w) p\<rparr>)),
      clock = (\<lambda>w. 1700)\<rparr>"

definition hello_doc :: LiveSyncDocument where
  "hello_doc = (blank_doc ''hello.md'')\<lparr>doc_type := Some ''plain'', doc_path := Some ''hello.md'',
      doc_data := Some ''SGVsbG8gV29ybGQ='', doc_mtime := Some 1000, doc_ctime := Some 900,
      doc_size := Some 11\<rparr>"

definition gone_doc :: LiveSyncDocument where
  "gone_doc = (blank_doc ''gone.md'')\<lparr>doc_type := Some ''plain'', doc_path := Some ''gone.md'',
      doc_deleted := Some True\<rparr>"

definition sample_remote_docs :: "LiveSyncDocument list" where
  "sample_remote_docs = [hello_doc, snd (hd sample_chunks), gone_doc]"

definition hello_note :: Note where
  "hello_note = \<lparr>note_id = ''hello.md'', note_path = ''hello.md'', note_content = ''Hello World'',
      note_mtime = 1000, note_ctime = 900, note_size = 11\<rparr>"

definition stale_note :: Note where
  "stale_note = \<lparr>note_id = ''gone.md'', note_path = ''gone.md'', note_content = ''old text'',
      note_mtime = 500, note_ctime = 400, note_size = 8\<rparr>"

definition sample_changes :: DatabaseChangesResponse where
  "sample_changes =
     \<lparr>results = Some [\<lparr>change_id = ''hello.md'', change_deleted = None, change_doc = Some hello_doc\<rparr>,
                      \<lparr>change_id = ''gone.md'', change_deleted = Some True, change_doc = None\<rparr>],
      last_seq = ''124-def''\<rparr>"

definition sample_world0 :: sample_world where
  "sample_world0 =
     \<lparr>sw_notes = [(''gone.md'', stale_note)],
      sw_state = \<lparr>state_lastSeq = None, state_lastSyncTime = None\<rparr>,
      sw_assembler = new_ChunkAssembler None\<rparr>"

definition sample_co :: "sample_world collaborators" where
  "sample_co = sample_collaborators (Inr sample_remote_docs) sample_changes"

definition failing_co :: "sample_world collaborators" where
  "failing_co = sample_collaborators (Inl (Error ''Database connection failed'')) sample_changes"

definition sample_running_service :: "sample_world SyncService" where
  "sample_running_service = set_status (\<lambda>st. st\<lparr>isRunning := True\<rparr>) (new_SyncService sample_world0)"

definition sample_cursor_service :: "sample_world SyncService" where
  "sample_cursor_service = set_status (\<lambda>st. st\<lparr>lastSeq := Some ''123-abc''\<rparr>) (new_SyncService sample_world0)"

definition sample_incremental_events :: "event list" where
  "sample_incremental_events =
     [\<lparr>ev_call = GetChanges (Some ''123-abc''), ev_resolved = True, ev_guarded = True\<rparr>,
      \<lparr>ev_call = AssembleDocument hello_doc, ev_resolved = True, ev_guarded = True\<rparr>,
      \<lparr>ev_call = SaveMany [hello_note], ev_resolved = True, ev_guarded = True\<rparr>,
      \<lparr>ev_call = DeleteMany [''gone.md''], ev_resolved = True, ev_guarded = True\<rparr>,
      \<lparr>ev_call = UpdateState \<lparr>state_lastSeq = Some ''124-def'', state_lastSyncTime = Some 1700\<rparr>,
        ev_resolved = True, ev_guarded = True\<rparr>,
      \<lparr>ev_call = Count, ev_resolved = True, ev_guarded = True\<rparr>]"

definition stale_cursor_world :: sample_world where
  "stale_cursor_world =
     \<lparr>sw_notes = [],
      sw_state = \<lparr>state_lastSeq = Some ''42-abc'', state_lastSyncTime = Some 1600\<rparr>,
      sw_assembler = new_ChunkAssembler None\<rparr>"

text \<open>
  Encrypted samples: a store holding the salt record (base64 of \<open>salt\<close>) and two marked
  chunks, answered in the order opposite to the children list, and an eden map with
  marked entries.
\<close>

definition encrypted_chunks :: "(string \<times> LiveSyncDocument) list" where
  "encrypted_chunks =
     [(''h:+2'', (blank_doc ''h:+2'')\<lparr>doc_type := Some ''leaf'', doc_data := Some ''%=dlroW''\<rparr>),
      (''h:+1'', (blank_doc ''h:+1'')\<lparr>doc_type := Some ''leaf'', doc_data := Some ''%= olleH''\<rparr>)]"

definition encrypted_storage :: IDocumentStorage where
  "encrypted_storage =
     \<lparr>getDocument = (\<lambda>i. if i = ''_local/obsidian_livesync_sync_parameters''
                          then Inr (Some ((blank_doc i)\<lparr>doc_pbkdf2salt := Some ''c2FsdA==''\<rparr>))
                          else Inr None),
      getDocuments = (\<lambda>ids. Inr (filter (\<lambda>row. fst row \<in> set ids) encrypted_chunks))\<rparr>"

definition encrypted_children_doc :: LiveSyncDocument where
  "encrypted_children_doc = (blank_doc ''note.md'')\<lparr>doc_children := Some [''h:+1'', ''h:+2'']\<rparr>"

definition encrypted_eden :: "(string \<times> EdenChunk) list" where
  "encrypted_eden =
     [(''c1'', \<lparr>eden_data = ''%= tsriF'', eden_epoch = 2\<rparr>),
      (''c2'', \<lparr>eden_data = ''%=dnoceS'', eden_epoch = 1\<rparr>)]"

definition encrypted_eden_doc :: LiveSyncDocument where
  "encrypted_eden_doc = (blank_doc ''note.md'')\<lparr>doc_eden := Some encrypted_eden\<rparr>"







section \<open>The assembler: leaf decoding and the two loops\<close>

lemma decrypt_stable:
  "decrypt pf st c d0 = (r, c') \<Longrightarrow> fst (decrypt pf st c' d) = fst (decrypt pf st c d)"
  by (auto simp: decrypt_def getPBKDF2Salt_def Let_def split: if_splits option.splits sum.splits prod.splits)

lemma leafResult_eq:
  "leafResult pf st a d =
     (case crypto a of Some c \<Rightarrow> fst (decrypt pf st c d) | None \<Rightarrow> Inr (base64_utf8 pf d))"
  by (simp add: leafResult_def decodeLeaf_def split: option.splits prod.splits)

lemma decodeLeaf_stable:
  assumes "decodeLeaf pf st a d0 = (r, a')"
  shows "leafResult pf st a' d = leafResult pf st a d"
proof (cases "crypto a")
  case None
  then show ?thesis using assms by (auto simp add: leafResult_def decodeLeaf_def)
next
  case (Some c)
  obtain r0 c' where d0: "decrypt pf st c d0 = (r0, c')" by (cases "decrypt pf st c d0")
  with Some assms have a': "a' = a\<lparr>crypto := Some c'\<rparr>" by (simp add: decodeLeaf_def)
  from decrypt_stable [OF d0] have "fst (decrypt pf st c' d) = fst (decrypt pf st c d)" .
  with Some a' show ?thesis
    by (simp add: leafResult_eq)
qed

lemma leafResult_bulk [simp]:
  "leafResult pf st (a\<lparr>bulk_requests := b\<rparr>) d = leafResult pf st a d"
  by (simp add: leafResult_def decodeLeaf_def split: option.splits prod.splits)

lemma edenLoop_all:
  "(\<And>d. leafResult pf st a' d = leafResult pf st a d) \<Longrightarrow>
   \<forall>entry\<in>set es. decodes pf st a (eden_data (snd entry)) \<Longrightarrow>
   fst (edenLoop pf st a' es) = Inr (map (\<lambda>entry. leafText pf st a (eden_data (snd entry))) es)"
proof (induction es arbitrary: a')
  case Nil
  then show ?case by simp
next
  case (Cons entry es)
  obtain chunkId chunk where entry: "entry = (chunkId, chunk)" by (cases entry)
  from Cons.prems(2) entry have ok: "decodes pf st a (eden_data chunk)" by simp
  obtain r a'' where step: "decodeLeaf pf st a' (eden_data chunk) = (r, a'')"
    by (cases "decodeLeaf pf st a' (eden_data chunk)")
  then have "leafResult pf st a' (eden_data chunk) = r" by (simp add: leafResult_def)
  with Cons.prems(1) have r: "leafResult pf st a (eden_data chunk) = r" by simp
  with ok obtain s where s: "r = Inr s" "leafText pf st a (eden_data chunk) = s"
    by (cases r) (auto simp: decodes_def leafText_def)
  have "\<And>d. leafResult pf st a'' d = leafResult pf st a d"
    using decodeLeaf_stable [OF step] Cons.prems(1) by simp
  from Cons.IH [OF this] Cons.prems(2)
  have "fst (edenLoop pf st a'' es) = Inr (map (\<lambda>entry. leafText pf st a (eden_data (snd entry))) es)"
    by simp
  moreover obtain r2 a3 where "edenLoop pf st a'' es = (r2, a3)"
    by (cases "edenLoop pf st a'' es")
  ultimately show ?case using step s entry by simp
qed

lemma filter_distinct_key:
  "distinct (map f xs) \<Longrightarrow> k \<in> set xs \<Longrightarrow> filter (\<lambda>x. f k = f x) xs = [k]"
proof (induction xs)
  case Nil
  then show ?case by simp
next
  case (Cons x xs)
  show ?case
  proof (cases "k = x")
    case True
    with Cons.prems have "\<forall>y\<in>set xs. f k \<noteq> f y" by auto
    then have "filter (\<lambda>x. f k = f x) xs = []" by (simp add: filter_empty_conv)
    with True show ?thesis by simp
  next
    case False
    with Cons.prems have "k \<in> set xs" "f k \<noteq> f x" by (auto simp: image_iff)
    with Cons show ?thesis by simp
  qed
qed

lemma sortedEntries_unique:
  assumes "distinct (map (\<lambda>entry. eden_epoch (snd entry)) eden)"
    and "mset ordered = mset eden"
    and "sorted (map (\<lambda>entry. eden_epoch (snd entry)) ordered)"
  shows "sortedEntries eden = ordered"
  unfolding sortedEntries_def
proof (rule properties_for_sort_key)
  show "mset ordered = mset eden" by fact
  show "sorted (map (\<lambda>entry. eden_epoch (snd entry)) ordered)" by fact
  fix k assume k: "k \<in> set ordered"
  from assms(2) have sets: "set ordered = set eden" by (rule mset_eq_setD)
  from assms(2) have "mset (map (\<lambda>entry. eden_epoch (snd entry)) ordered)
      = mset (map (\<lambda>entry. eden_epoch (snd entry)) eden)" by simp
  with assms(1) have "distinct (map (\<lambda>entry. eden_epoch (snd entry)) ordered)"
    using mset_eq_imp_distinct_iff by blast
  from this k have "filter (\<lambda>x. eden_epoch (snd k) = eden_epoch (snd x)) ordered = [k]"
    by (rule filter_distinct_key [where f = "\<lambda>entry. eden_epoch (snd entry)"])
  moreover from assms(1) k sets
  have "filter (\<lambda>x. eden_epoch (snd k) = eden_epoch (snd x)) eden = [k]"
    by (intro filter_distinct_key [where f = "\<lambda>entry. eden_epoch (snd entry)"]) auto
  ultimately show "filter (\<lambda>x. eden_epoch (snd k) = eden_epoch (snd x)) ordered
      = filter (\<lambda>x. eden_epoch (snd k) = eden_epoch (snd x)) eden" by simp
qed

lemma childrenLoop_all:
  "(\<And>d. leafResult pf st a' d = leafResult pf st a d) \<Longrightarrow>
   \<forall>chunkId\<in>set ids. map_of chunkDocs chunkId = Some (chunk_of chunkId)
      \<and> truthy_str (doc_data (chunk_of chunkId))
      \<and> decodes pf st a (the (doc_data (chunk_of chunkId))) \<Longrightarrow>
   fst (childrenLoop pf st chunkDocs a' ids)
     = Inr (map (\<lambda>chunkId. leafText pf st a (the (doc_data (chunk_of chunkId)))) ids)"
proof (induction ids arbitrary: a')
  case Nil
  then show ?case by simp
next
  case (Cons chunkId ids)
  let ?d = "the (doc_data (chunk_of chunkId))"
  from Cons.prems(2) have found: "map_of chunkDocs chunkId = Some (chunk_of chunkId)"
    and data: "truthy_str (doc_data (chunk_of chunkId))"
    and ok: "decodes pf st a ?d" by simp_all
  obtain r a'' where step: "decodeLeaf pf st a' ?d = (r, a'')"
    by (cases "decodeLeaf pf st a' ?d")
  then have "leafResult pf st a' ?d = r" by (simp add: leafResult_def)
  with Cons.prems(1) have "leafResult pf st a ?d = r" by simp
  with ok obtain s where s: "r = Inr s" "leafText pf st a ?d = s"
    by (cases r) (auto simp: decodes_def leafText_def)
  have "\<And>d. leafResult pf st a'' d = leafResult pf st a d"
    using decodeLeaf_stable [OF step] Cons.prems(1) by simp
  from Cons.IH [OF this] Cons.prems(2)
  have "fst (childrenLoop pf st chunkDocs a'' ids)
      = Inr (map (\<lambda>chunkId. leafText pf st a (the (doc_data (chunk_of chunkId)))) ids)"
    by simp
  moreover obtain r2 a3 where "childrenLoop pf st chunkDocs a'' ids = (r2, a3)"
    by (cases "childrenLoop pf st chunkDocs a'' ids")
  ultimately show ?case using step s found data by simp
qed

text \<open>
  Without a passphrase every payload decodes; with one, every unmarked payload does.
\<close>

lemma decodes_plain:
  "crypto a = None \<Longrightarrow> decodes pf st a d"
  "crypto a \<noteq> None \<Longrightarrow> \<not> isEncrypted d \<Longrightarrow> decodes pf st a d"
  by (auto simp add: decodes_def leafResult_def decodeLeaf_def decrypt_def)

lemma fst_some_result:
  "fst (some_result r) = (case fst r of Inl e \<Rightarrow> Inl e | Inr s \<Rightarrow> Inr (Some s))"
  by (simp add: some_result_def split: prod.splits sum.splits)

lemma fst_assembleFromEden:
  "fst (assembleFromEden pf st a eden)
     = (case fst (edenLoop pf st a (sortedEntries eden)) of Inl e \<Rightarrow> Inl e | Inr cs \<Rightarrow> Inr (concat cs))"
  by (simp add: assembleFromEden_def split: prod.splits sum.splits)

lemma fst_assembleFromChildren:
  "getDocuments st children = Inr chunkDocs \<Longrightarrow>
   fst (assembleFromChildren pf st a children)
     = (case fst (childrenLoop pf st chunkDocs (a\<lparr>bulk_requests := bulk_requests a @ [children]\<rparr>) children)
        of Inl e \<Rightarrow> Inl e | Inr cs \<Rightarrow> Inr (concat cs))"
  by (simp add: assembleFromChildren_def Let_def split: prod.splits sum.splits)

lemma sortedEntries_permutation:
  assumes "distinct (map (\<lambda>entry. eden_epoch (snd entry)) eden)" and "mset eden' = mset eden"
  shows "sortedEntries eden' = sortedEntries eden"
proof -
  from assms(2) have "mset (map (\<lambda>entry. eden_epoch (snd entry)) eden')
      = mset (map (\<lambda>entry. eden_epoch (snd entry)) eden)" by simp
  with assms(1) have d': "distinct (map (\<lambda>entry. eden_epoch (snd entry)) eden')"
    using mset_eq_imp_distinct_iff by blast
  have "mset (sortedEntries eden) = mset eden'"
    using assms(2) by (simp add: sortedEntries_def)
  moreover have "sorted (map (\<lambda>entry. eden_epoch (snd entry)) (sortedEntries eden))"
    by (simp add: sortedEntries_def)
  ultimately show ?thesis using d' by (intro sortedEntries_unique)
qed

text \<open>
  The leaf block computes the decoded content: it returns \<open>t\<close> exactly when \<open>t\<close> is the
  decoded content of the payload, and throws exactly when there is none.
\<close>

lemma isEncrypted_marker: "isEncrypted d = (take 2 d = ''%='')"
proof (cases d)
  case Nil
  then show ?thesis by (simp add: isEncrypted_def HKDF_PREFIX_def)
next
  case (Cons x xs)
  then show ?thesis by (cases xs) (auto simp add: isEncrypted_def HKDF_PREFIX_def)
qed

lemma getPBKDF2Salt_passphrase:
  "passphrase (snd (getPBKDF2Salt pf st c)) = passphrase c"
  by (simp add: getPBKDF2Salt_def Let_def split: option.splits sum.splits)

lemma getPBKDF2Salt_salt_in_use:
  "(fst (getPBKDF2Salt pf st c) = Inr salt) = (salt_in_use pf st c = Some salt)"
  by (auto simp add: getPBKDF2Salt_def salt_in_use_def SYNC_PARAMS_DOCID_def Let_def
      split: option.splits sum.splits)

lemma decrypt_decoded:
  "(fst (decrypt pf st c d) = Inr t)
     = ((if take 2 d \<noteq> ''%='' then Some d
         else (case salt_in_use pf st c of
                 None \<Rightarrow> None
               | Some salt \<Rightarrow>
                   (case decryptHKDF pf d (passphrase c) salt of
                      Inl e \<Rightarrow> None
                    | Inr plaintext \<Rightarrow> Some plaintext))) = Some t)"
proof (cases "take 2 d \<noteq> ''%=''")
  case True
  then show ?thesis by (auto simp add: decrypt_def isEncrypted_marker)
next
  case False
  obtain r c' where g: "getPBKDF2Salt pf st c = (r, c')" by (cases "getPBKDF2Salt pf st c")
  from getPBKDF2Salt_passphrase [of pf st c] g have p: "passphrase c' = passphrase c" by simp
  show ?thesis
  proof (cases r)
    case (Inl e)
    with g have "salt_in_use pf st c = None"
      using getPBKDF2Salt_salt_in_use [of pf st c] by (cases "salt_in_use pf st c") auto
    with False g Inl show ?thesis by (simp add: decrypt_def isEncrypted_marker)
  next
    case (Inr salt)
    with g have "salt_in_use pf st c = Some salt"
      using getPBKDF2Salt_salt_in_use [of pf st c salt] by simp
    with False g Inr p show ?thesis
      by (simp add: decrypt_def isEncrypted_marker split: sum.splits)
  qed
qed

lemma leafResult_decoded_content:
  "(leafResult pf st a d = Inr t) = (decoded_content pf st a d = Some t)"
proof (cases "crypto a")
  case None
  then show ?thesis by (auto simp add: leafResult_eq decoded_content_def)
next
  case (Some c)
  then show ?thesis using decrypt_decoded [of pf st c d t]
    by (simp add: leafResult_eq decoded_content_def)
qed

lemma decodes_decoded_content:
  "decodes pf st a d = (decoded_content pf st a d \<noteq> None)"
proof (cases "leafResult pf st a d")
  case (Inl e)
  have "decoded_content pf st a d = None"
  proof (cases "decoded_content pf st a d")
    case (Some t)
    then have "leafResult pf st a d = Inr t" by (simp add: leafResult_decoded_content)
    with Inl show ?thesis by simp
  qed simp
  with Inl show ?thesis by (simp add: decodes_def)
next
  case (Inr t)
  then have "decoded_content pf st a d = Some t" by (simp add: leafResult_decoded_content)
  with Inr show ?thesis by (simp add: decodes_def)
qed

lemma leafText_decoded_content:
  assumes "decoded_content pf st a d \<noteq> None"
  shows "leafText pf st a d = the (decoded_content pf st a d)"
proof -
  from assms obtain t where t: "decoded_content pf st a d = Some t" by auto
  then have "leafResult pf st a d = Inr t" by (simp add: leafResult_decoded_content)
  with t show ?thesis by (simp add: leafText_def)
qed

lemma eden_result:
  assumes "\<not> has_data doc" and "doc_eden doc = Some eden" and "eden \<noteq> []"
    and "distinct (map (\<lambda>entry. eden_epoch (snd entry)) eden)"
    and "\<forall>entry\<in>set eden. decodes pf st a (eden_data (snd entry))"
    and "mset ordered = mset eden"
    and "sorted (map (\<lambda>entry. eden_epoch (snd entry)) ordered)"
  shows "fst (assembleDocument pf st a doc)
       = Inr (Some (concat (map (\<lambda>entry. leafText pf st a (eden_data (snd entry))) ordered)))"
proof -
  have sorted_eq: "sortedEntries eden = ordered"
    using assms(4,6,7) by (rule sortedEntries_unique)
  from assms(6) have "set ordered = set eden" by (rule mset_eq_setD)
  with assms(5) have "\<forall>entry\<in>set ordered. decodes pf st a (eden_data (snd entry))" by simp
  then have "fst (edenLoop pf st a ordered)
      = Inr (map (\<lambda>entry. leafText pf st a (eden_data (snd entry))) ordered)"
    by (intro edenLoop_all) simp_all
  with sorted_eq have "fst (assembleFromEden pf st a eden)
      = Inr (concat (map (\<lambda>entry. leafText pf st a (eden_data (snd entry))) ordered))"
    by (simp add: fst_assembleFromEden)
  with assms(1,2,3) show ?thesis
    by (simp add: assembleDocument_def has_eden_def fst_some_result)
qed

text \<open>
  Claim C7.  When the eden map is the content source of a record (no inline data, a
  non-empty map), its entries carry pairwise-distinct epochs and every entry has a
  decoded content (\<open>decoded_content\<close>: the base64 decoding without a passphrase, the
  HKDF decryption of a marked payload with one), \<open>assembleDocument\<close> returns the
  concatenation of the decoded contents of the entries in ascending epoch: for every
  listing \<open>ordered\<close> of the same entries that ascends in epoch.  And a record holding
  the same entries in any other order \<open>eden'\<close> assembles to the same result.
\<close>

theorem eden_assembly_order:
  assumes "\<not> has_data doc" and "doc_eden doc = Some eden" and "eden \<noteq> []"
    and "distinct (map (\<lambda>entry. eden_epoch (snd entry)) eden)"
    and "\<forall>entry\<in>set eden. decoded_content pf st a (eden_data (snd entry)) \<noteq> None"
    and "mset ordered = mset eden"
    and "sorted (map (\<lambda>entry. eden_epoch (snd entry)) ordered)"
  shows "fst (assembleDocument pf st a doc)
       = Inr (Some (concat (map (\<lambda>entry. the (decoded_content pf st a (eden_data (snd entry)))) ordered)))
     \<and> (\<forall>eden'. mset eden' = mset eden \<longrightarrow>
           assembleDocument pf st a (doc\<lparr>doc_eden := Some eden'\<rparr>) = assembleDocument pf st a doc)"
proof (intro conjI allI impI)
  from assms(5) have dec: "\<forall>entry\<in>set eden. decodes pf st a (eden_data (snd entry))"
    by (simp add: decodes_decoded_content)
  from assms(6) have "set ordered = set eden" by (rule mset_eq_setD)
  with assms(5) have texts: "map (\<lambda>entry. leafText pf st a (eden_data (snd entry))) ordered
      = map (\<lambda>entry. the (decoded_content pf st a (eden_data (snd entry)))) ordered"
    by (intro map_cong refl leafText_decoded_content) simp
  from eden_result [OF assms(1-4) dec assms(6,7)]
  show "fst (assembleDocument pf st a doc)
       = Inr (Some (concat (map (\<lambda>entry. the (decoded_content pf st a (eden_data (snd entry)))) ordered)))"
    by (simp only: texts)
next
  fix eden' assume perm: "mset eden' = mset eden"
  with assms(3) have "eden' \<noteq> []" by auto
  moreover from assms(4) perm have "sortedEntries eden' = sortedEntries eden"
    by (rule sortedEntries_permutation)
  ultimately show "assembleDocument pf st a (doc\<lparr>doc_eden := Some eden'\<rparr>) = assembleDocument pf st a doc"
    using assms(1,2,3)
    by (simp add: assembleDocument_def has_data_def has_eden_def assembleFromEden_def)
qed

lemma leafResult_getDocuments [simp]:
  "leafResult pf (st\<lparr>getDocuments := g\<rparr>) a d = leafResult pf st a d"
  by (simp add: leafResult_def decodeLeaf_def decrypt_def getPBKDF2Salt_def Let_def
      split: option.splits prod.splits sum.splits)

lemma children_result:
  assumes "\<not> has_data doc" and "\<not> has_eden doc"
    and "doc_children doc = Some children" and "children \<noteq> []"
    and "getDocuments st children = Inr chunkDocs" and "distinct (map fst chunkDocs)"
    and "\<forall>chunkId\<in>set children. (chunkId, chunk_of chunkId) \<in> set chunkDocs
           \<and> truthy_str (doc_data (chunk_of chunkId))
           \<and> decodes pf st a (the (doc_data (chunk_of chunkId)))"
  shows "fst (assembleDocument pf st a doc)
     = Inr (Some (concat (map (\<lambda>chunkId. leafText pf st a (the (doc_data (chunk_of chunkId)))) children)))"
proof -
  let ?a1 = "a\<lparr>bulk_requests := bulk_requests a @ [children]\<rparr>"
  from assms(6,7)
  have "\<forall>chunkId\<in>set children. map_of chunkDocs chunkId = Some (chunk_of chunkId)
      \<and> truthy_str (doc_data (chunk_of chunkId))
      \<and> decodes pf st a (the (doc_data (chunk_of chunkId)))"
    by (simp add: map_of_eq_Some_iff)
  then have "fst (childrenLoop pf st chunkDocs ?a1 children)
      = Inr (map (\<lambda>chunkId. leafText pf st a (the (doc_data (chunk_of chunkId)))) children)"
    by (intro childrenLoop_all) simp_all
  with assms(5) have "fst (assembleFromChildren pf st a children)
      = Inr (concat (map (\<lambda>chunkId. leafText pf st a (the (doc_data (chunk_of chunkId)))) children))"
    by (simp add: fst_assembleFromChildren)
  with assms(1,2,3,4) show ?thesis
    by (simp add: assembleDocument_def has_children_def fst_some_result)
qed

lemma decoded_content_getDocuments [simp]:
  "decoded_content pf (st\<lparr>getDocuments := g\<rparr>) a d = decoded_content pf st a d"
  by (simp add: decoded_content_def salt_in_use_def split: option.splits sum.splits)

text \<open>
  Claim C2, as amended.  When the children list is the content source of a record and
  the bulk fetch returns, for every referenced id, a chunk whose \<open>data\<close> is a non-empty
  string that has a decoded content (\<open>decoded_content\<close>: the base64 decoding without a
  passphrase, the HKDF decryption of a marked payload with one), \<open>assembleDocument\<close>
  returns the concatenation of the decoded contents of the chunks in the order of the
  children list, \<open>chunk_of\<close> being the chunk the result map holds for an id.  And a
  store that answers the bulk fetch with the same entries in any other order
  \<open>chunkDocs'\<close> leads to the same result.
\<close>

theorem children_assembly_order:
  assumes "\<not> has_data doc" and "\<not> has_eden doc"
    and "doc_children doc = Some children" and "children \<noteq> []"
    and "getDocuments st children = Inr chunkDocs" and "distinct (map fst chunkDocs)"
    and "\<forall>chunkId\<in>set children. (chunkId, chunk_of chunkId) \<in> set chunkDocs
           \<and> truthy_str (doc_data (chunk_of chunkId))
           \<and> decoded_content pf st a (the (doc_data (chunk_of chunkId))) \<noteq> None"
  shows "fst (assembleDocument pf st a doc)
       = Inr (Some (concat (map (\<lambda>chunkId. the (decoded_content pf st a (the (doc_data (chunk_of chunkId))))) children)))
     \<and> (\<forall>chunkDocs'. mset chunkDocs' = mset chunkDocs \<longrightarrow>
           fst (assembleDocument pf (st\<lparr>getDocuments := (\<lambda>ids. Inr chunkDocs')\<rparr>) a doc)
             = fst (assembleDocument pf st a doc))"
proof (intro conjI allI impI)
  from assms(7)
  have dec: "\<forall>chunkId\<in>set children. (chunkId, chunk_of chunkId) \<in> set chunkDocs
           \<and> truthy_str (doc_data (chunk_of chunkId))
           \<and> decodes pf st a (the (doc_data (chunk_of chunkId)))"
    by (simp add: decodes_decoded_content)
  from assms(7)
  have texts: "map (\<lambda>chunkId. leafText pf st a (the (doc_data (chunk_of chunkId)))) children
      = map (\<lambda>chunkId. the (decoded_content pf st a (the (doc_data (chunk_of chunkId))))) children"
    by (intro map_cong refl leafText_decoded_content) simp
  have main': "fst (assembleDocument pf st a doc)
       = Inr (Some (concat (map (\<lambda>chunkId. leafText pf st a (the (doc_data (chunk_of chunkId)))) children)))"
    using assms(1-6) dec by (rule children_result)
  then show "fst (assembleDocument pf st a doc)
       = Inr (Some (concat (map (\<lambda>chunkId. the (decoded_content pf st a (the (doc_data (chunk_of chunkId))))) children)))"
    by (simp only: texts)
  fix chunkDocs' assume perm: "mset chunkDocs' = mset chunkDocs"
  let ?st' = "st\<lparr>getDocuments := (\<lambda>ids. Inr chunkDocs')\<rparr>"
  from perm have sets: "set chunkDocs' = set chunkDocs" by (rule mset_eq_setD)
  from perm have "mset (map fst chunkDocs') = mset (map fst chunkDocs)" by simp
  with assms(6) have d': "distinct (map fst chunkDocs')"
    using mset_eq_imp_distinct_iff by blast
  have same: "decodes pf ?st' a d = decodes pf st a d" "leafText pf ?st' a d = leafText pf st a d" for d
    by (simp_all add: decodes_def leafText_def)
  have "fst (assembleDocument pf ?st' a doc)
      = Inr (Some (concat (map (\<lambda>chunkId. leafText pf ?st' a (the (doc_data (chunk_of chunkId)))) children)))"
    using assms(1-4) _ d'
  proof (rule children_result)
    show "getDocuments ?st' children = Inr chunkDocs'" by simp
    show "\<forall>chunkId\<in>set children. (chunkId, chunk_of chunkId) \<in> set chunkDocs'
           \<and> truthy_str (doc_data (chunk_of chunkId))
           \<and> decodes pf ?st' a (the (doc_data (chunk_of chunkId)))"
      using dec sets same by simp
  qed
  with main' same show "fst (assembleDocument pf ?st' a doc) = fst (assembleDocument pf st a doc)"
    by simp
qed

lemma sample_base64_values:
  "sample_base64 ''QQ=='' = ''A''" "sample_base64 ''Qg=='' = ''B''"
  "sample_base64 ''Rmlyc3Qg'' = ''First ''" "sample_base64 ''U2Vjb25k'' = ''Second''"
  "sample_base64 ''SGVsbG8gV29ybGQ='' = ''Hello World''" "sample_base64 '''' = ''''"
  by code_simp+

lemma sample_salt: "sample_base64 ''c2FsdA=='' = ''salt''"
  by code_simp

lemma sample_decoded_plain:
  "decoded_content sample_platform st (new_ChunkAssembler None) ''QQ=='' = Some ''A''"
  "decoded_content sample_platform st (new_ChunkAssembler None) ''Qg=='' = Some ''B''"
  "decoded_content sample_platform st (new_ChunkAssembler None) ''Rmlyc3Qg'' = Some ''First ''"
  "decoded_content sample_platform st (new_ChunkAssembler None) ''U2Vjb25k'' = Some ''Second''"
  by (simp_all add: decoded_content_def new_ChunkAssembler_def sample_platform_def
      sample_base64_values)

lemma sample_decoded_encrypted:
  "decoded_content sample_platform encrypted_storage (new_ChunkAssembler (Some ''pw'')) ''%= olleH'' = Some ''Hello ''"
  "decoded_content sample_platform encrypted_storage (new_ChunkAssembler (Some ''pw'')) ''%=dlroW'' = Some ''World''"
  "decoded_content sample_platform encrypted_storage (new_ChunkAssembler (Some ''pw'')) ''%= tsriF'' = Some ''First ''"
  "decoded_content sample_platform encrypted_storage (new_ChunkAssembler (Some ''pw'')) ''%=dnoceS'' = Some ''Second''"
  by (simp_all add: decoded_content_def salt_in_use_def new_ChunkAssembler_def new_LiveSyncCrypto_def
      sample_platform_def encrypted_storage_def blank_doc_def sample_salt
      sample_decryptHKDF_def)

text \<open>
  The scenario of the specification, children \<open>["a", "b"]\<close> and a bulk fetch that
  answers \<open>b\<close> before \<open>a\<close>, without a passphrase; and a run under the passphrase \<open>pw\<close>
  on two marked chunks, again answered in the opposite order, whose ciphertexts
  \<open>%= olleH\<close> and \<open>%=dlroW\<close> decrypt to \<open>Hello \<close> and \<open>World\<close>.
\<close>

theorem children_assembly_order_witness:
  "doc_children sample_children_doc = Some [''a'', ''b'']
   \<and> getDocuments sample_storage [''a'', ''b''] = Inr (take 2 sample_chunks)
   \<and> map fst (take 2 sample_chunks) = [''b'', ''a'']
   \<and> fst (assembleDocument sample_platform sample_storage (new_ChunkAssembler None) sample_children_doc)
       = Inr (Some ''AB'')
   \<and> doc_children encrypted_children_doc = Some [''h:+1'', ''h:+2'']
   \<and> getDocuments encrypted_storage [''h:+1'', ''h:+2''] = Inr encrypted_chunks
   \<and> map (\<lambda>row. (fst row, doc_data (snd row))) encrypted_chunks
       = [(''h:+2'', Some ''%=dlroW''), (''h:+1'', Some ''%= olleH'')]
   \<and> fst (assembleDocument sample_platform encrypted_storage (new_ChunkAssembler (Some ''pw''))
            encrypted_children_doc)
       = Inr (Some ''Hello World'')"
proof -
  let ?a = "new_ChunkAssembler None"
  let ?chunk_of = "\<lambda>i. the (map_of sample_chunks i)"
  have h1: "\<not> has_data sample_children_doc" and h2: "\<not> has_eden sample_children_doc"
    and h3: "doc_children sample_children_doc = Some [''a'', ''b'']" and h4: "[''a'', ''b''] \<noteq> ([] :: string list)"
    by (simp_all add: sample_children_doc_def blank_doc_def has_data_def has_eden_def)
  have h5: "getDocuments sample_storage [''a'', ''b''] = Inr (take 2 sample_chunks)"
    by (simp add: sample_storage_def sample_chunks_def)
  have h6: "distinct (map fst (take 2 sample_chunks))"
    by (simp add: sample_chunks_def)
  have h7: "\<forall>chunkId\<in>set [''a'', ''b'']. (chunkId, ?chunk_of chunkId) \<in> set (take 2 sample_chunks)
           \<and> truthy_str (doc_data (?chunk_of chunkId))
           \<and> decoded_content sample_platform sample_storage ?a (the (doc_data (?chunk_of chunkId))) \<noteq> None"
    by (simp add: sample_chunks_def blank_doc_def sample_decoded_plain)
  have texts: "map (\<lambda>chunkId. the (decoded_content sample_platform sample_storage ?a (the (doc_data (?chunk_of chunkId))))) [''a'', ''b'']
      = [''A'', ''B'']"
    by (simp add: sample_chunks_def blank_doc_def sample_decoded_plain)
  let ?b = "new_ChunkAssembler (Some ''pw'')"
  let ?enc_of = "\<lambda>i. the (map_of encrypted_chunks i)"
  have e1: "\<not> has_data encrypted_children_doc" and e2: "\<not> has_eden encrypted_children_doc"
    and e3: "doc_children encrypted_children_doc = Some [''h:+1'', ''h:+2'']"
    and e4: "[''h:+1'', ''h:+2''] \<noteq> ([] :: string list)"
    by (simp_all add: encrypted_children_doc_def blank_doc_def has_data_def has_eden_def)
  have e5: "getDocuments encrypted_storage [''h:+1'', ''h:+2''] = Inr encrypted_chunks"
    by (simp add: encrypted_storage_def encrypted_chunks_def)
  have e6: "distinct (map fst encrypted_chunks)"
    by (simp add: encrypted_chunks_def)
  have e7: "\<forall>chunkId\<in>set [''h:+1'', ''h:+2'']. (chunkId, ?enc_of chunkId) \<in> set encrypted_chunks
           \<and> truthy_str (doc_data (?enc_of chunkId))
           \<and> decoded_content sample_platform encrypted_storage ?b (the (doc_data (?enc_of chunkId))) \<noteq> None"
    by (simp add: encrypted_chunks_def blank_doc_def sample_decoded_encrypted)
  have etexts: "map (\<lambda>chunkId. the (decoded_content sample_platform encrypted_storage ?b (the (doc_data (?enc_of chunkId))))) [''h:+1'', ''h:+2'']
      = [''Hello '', ''World'']"
    by (simp add: encrypted_chunks_def blank_doc_def sample_decoded_encrypted)
  have rows: "map (\<lambda>row. (fst row, doc_data (snd row))) encrypted_chunks
       = [(''h:+2'', Some ''%=dlroW''), (''h:+1'', Some ''%= olleH'')]"
    by (simp add: encrypted_chunks_def blank_doc_def)
  from children_assembly_order [OF h1 h2 h3 h4 h5 h6 h7] texts
  have plain: "fst (assembleDocument sample_platform sample_storage ?a sample_children_doc) = Inr (Some ''AB'')"
    by simp
  from children_assembly_order [OF e1 e2 e3 e4 e5 e6 e7] etexts
  have enc: "fst (assembleDocument sample_platform encrypted_storage ?b encrypted_children_doc)
      = Inr (Some ''Hello World'')"
    by simp
  from plain enc h3 h5 e3 e5 rows show ?thesis
    by (simp add: sample_chunks_def)
qed

text \<open>
  Claim C2 as stated fails for a chunk that carries the data field \<open>""\<close>: the test
  \<open>!chunk.data\<close> takes the empty string for a missing field, and the assembly throws
  where the concatenation of the decoded contents would be the empty string.
\<close>

theorem children_assembly_empty_data_counterexample:
  "doc_data sample_empty_chunk_doc = None \<and> doc_eden sample_empty_chunk_doc = None
   \<and> doc_children sample_empty_chunk_doc = Some [''e'']
   \<and> map_of sample_chunks ''e'' = Some ((blank_doc ''e'')\<lparr>doc_type := Some ''leaf'', doc_data := Some ''''\<rparr>)
   \<and> base64_utf8 sample_platform '''' = ''''
   \<and> fst (assembleDocument sample_platform sample_storage (new_ChunkAssembler None) sample_empty_chunk_doc)
       = Inl (Error ''Chunk has no data: e'')"
  by (simp add: sample_empty_chunk_doc_def blank_doc_def sample_chunks_def sample_storage_def
      sample_platform_def sample_base64_values assembleDocument_def has_data_def has_eden_def
      has_children_def assembleFromChildren_def some_result_def new_ChunkAssembler_def)

text \<open>
  The scenario of the specification, \<open>c1\<close> holding "First " at epoch 2 and \<open>c2\<close> holding
  "Second" at epoch 1, enumerated in that order, without a passphrase; and the same
  texts as marked ciphertexts \<open>%= tsriF\<close> and \<open>%=dnoceS\<close> under the passphrase \<open>pw\<close>.
\<close>

theorem eden_assembly_order_witness:
  "doc_eden sample_eden_doc = Some sample_eden
   \<and> map (\<lambda>entry. eden_epoch (snd entry)) sample_eden = [2, 1]
   \<and> fst (assembleDocument sample_platform sample_storage (new_ChunkAssembler None) sample_eden_doc)
       = Inr (Some ''SecondFirst '')
   \<and> doc_eden encrypted_eden_doc = Some encrypted_eden
   \<and> map (\<lambda>entry. (eden_data (snd entry), eden_epoch (snd entry))) encrypted_eden
       = [(''%= tsriF'', 2), (''%=dnoceS'', 1)]
   \<and> fst (assembleDocument sample_platform encrypted_storage (new_ChunkAssembler (Some ''pw''))
            encrypted_eden_doc)
       = Inr (Some ''SecondFirst '')"
proof -
  let ?a = "new_ChunkAssembler None"
  have h1: "\<not> has_data sample_eden_doc" and h2: "doc_eden sample_eden_doc = Some sample_eden"
    and h3: "sample_eden \<noteq> []"
    by (simp_all add: sample_eden_doc_def blank_doc_def has_data_def sample_eden_def)
  have h4: "distinct (map (\<lambda>entry. eden_epoch (snd entry)) sample_eden)"
    by (simp add: sample_eden_def)
  have h5: "\<forall>entry\<in>set sample_eden. decoded_content sample_platform sample_storage ?a (eden_data (snd entry)) \<noteq> None"
    by (simp add: sample_eden_def sample_decoded_plain)
  have h6: "mset (rev sample_eden) = mset sample_eden" by simp
  have h7: "sorted (map (\<lambda>entry. eden_epoch (snd entry)) (rev sample_eden))"
    by (simp add: sample_eden_def)
  have texts: "map (\<lambda>entry. the (decoded_content sample_platform sample_storage ?a (eden_data (snd entry)))) (rev sample_eden)
      = [''Second'', ''First '']"
    by (simp add: sample_eden_def sample_decoded_plain)
  let ?b = "new_ChunkAssembler (Some ''pw'')"
  have e1: "\<not> has_data encrypted_eden_doc" and e2: "doc_eden encrypted_eden_doc = Some encrypted_eden"
    and e3: "encrypted_eden \<noteq> []"
    by (simp_all add: encrypted_eden_doc_def blank_doc_def has_data_def encrypted_eden_def)
  have e4: "distinct (map (\<lambda>entry. eden_epoch (snd entry)) encrypted_eden)"
    by (simp add: encrypted_eden_def)
  have e5: "\<forall>entry\<in>set encrypted_eden. decoded_content sample_platform encrypted_storage ?b (eden_data (snd entry)) \<noteq> None"
    by (simp add: encrypted_eden_def sample_decoded_encrypted)
  have e6: "mset (rev encrypted_eden) = mset encrypted_eden" by simp
  have e7: "sorted (map (\<lambda>entry. eden_epoch (snd entry)) (rev encrypted_eden))"
    by (simp add: encrypted_eden_def)
  have etexts: "map (\<lambda>entry. the (decoded_content sample_platform encrypted_storage ?b (eden_data (snd entry)))) (rev encrypted_eden)
      = [''Second'', ''First '']"
    by (simp add: encrypted_eden_def sample_decoded_encrypted)
  have rows: "map (\<lambda>entry. (eden_data (snd entry), eden_epoch (snd entry))) encrypted_eden
       = [(''%= tsriF'', 2), (''%=dnoceS'', 1)]"
    by (simp add: encrypted_eden_def)
  from eden_assembly_order [OF h1 h2 h3 h4 h5 h6 h7] texts
  have plain: "fst (assembleDocument sample_platform sample_storage ?a sample_eden_doc)
      = Inr (Some ''SecondFirst '')"
    by simp
  from eden_assembly_order [OF e1 e2 e3 e4 e5 e6 e7] etexts
  have enc: "fst (assembleDocument sample_platform encrypted_storage ?b encrypted_eden_doc)
      = Inr (Some ''SecondFirst '')"
    by simp
  from plain enc h2 e2 rows show ?thesis
    by (simp add: sample_eden_def)
qed

lemma bulk_decodeLeaf [simp]:
  "bulk_requests (snd (decodeLeaf pf st a d)) = bulk_requests a"
  by (simp add: decodeLeaf_def split: option.splits prod.splits)

lemma bulk_edenLoop [simp]:
  "bulk_requests (snd (edenLoop pf st a es)) = bulk_requests a"
proof (induction es arbitrary: a)
  case Nil
  then show ?case by simp
next
  case (Cons entry es)
  obtain chunkId chunk where entry: "entry = (chunkId, chunk)" by (cases entry)
  obtain r a' where step: "decodeLeaf pf st a (eden_data chunk) = (r, a')"
    by (cases "decodeLeaf pf st a (eden_data chunk)")
  then have "bulk_requests a' = bulk_requests a"
    using bulk_decodeLeaf [of pf st a "eden_data chunk"] by simp
  moreover obtain r2 a2 where "edenLoop pf st a' es = (r2, a2)" by (cases "edenLoop pf st a' es")
  moreover from this Cons.IH [of a'] have "bulk_requests a2 = bulk_requests a'" by simp
  ultimately show ?case using step entry by (cases r; cases r2) simp_all
qed

lemma snd_some_result [simp]: "snd (some_result r) = snd r"
  by (simp add: some_result_def split: prod.splits sum.splits)

lemma bulk_assembleFromEden [simp]:
  "bulk_requests (snd (assembleFromEden pf st a eden)) = bulk_requests a"
proof -
  obtain r a' where loop: "edenLoop pf st a (sortedEntries eden) = (r, a')"
    by (cases "edenLoop pf st a (sortedEntries eden)")
  with bulk_edenLoop [of pf st a "sortedEntries eden"] have "bulk_requests a' = bulk_requests a" by simp
  with loop show ?thesis by (cases r) (simp_all add: assembleFromEden_def)
qed

text \<open>
  Claim C6.  \<open>assembleDocument\<close> takes the first of inline data, eden map and children
  list that is present and non-empty, and that one alone: the result is a function of
  the winning field only, an empty inline string counts as absent, the first two
  strategies issue no bulk fetch, and with no source the result is \<open>null\<close> with the
  assembler unchanged.
\<close>

theorem strategy_priority:
  "(doc_data doc = Some d \<and> d \<noteq> [] \<longrightarrow>
      assembleDocument pf st a doc = some_result (decodeLeaf pf st a d)
      \<and> bulk_requests (snd (assembleDocument pf st a doc)) = bulk_requests a)
   \<and> ((doc_data doc = None \<or> doc_data doc = Some []) \<and> doc_eden doc = Some eden \<and> eden \<noteq> [] \<longrightarrow>
      assembleDocument pf st a doc = some_result (assembleFromEden pf st a eden)
      \<and> bulk_requests (snd (assembleDocument pf st a doc)) = bulk_requests a)
   \<and> ((doc_data doc = None \<or> doc_data doc = Some []) \<and> (doc_eden doc = None \<or> doc_eden doc = Some [])
       \<and> doc_children doc = Some children \<and> children \<noteq> [] \<longrightarrow>
      assembleDocument pf st a doc = some_result (assembleFromChildren pf st a children))
   \<and> ((doc_data doc = None \<or> doc_data doc = Some []) \<and> (doc_eden doc = None \<or> doc_eden doc = Some [])
       \<and> (doc_children doc = None \<or> doc_children doc = Some []) \<longrightarrow>
      assembleDocument pf st a doc = (Inr None, a))"
proof (intro conjI impI)
  assume "doc_data doc = Some d \<and> d \<noteq> []"
  then show "assembleDocument pf st a doc = some_result (decodeLeaf pf st a d)"
    by (simp add: assembleDocument_def has_data_def)
  then show "bulk_requests (snd (assembleDocument pf st a doc)) = bulk_requests a" by simp
next
  assume "(doc_data doc = None \<or> doc_data doc = Some []) \<and> doc_eden doc = Some eden \<and> eden \<noteq> []"
  then show "assembleDocument pf st a doc = some_result (assembleFromEden pf st a eden)"
    by (auto simp add: assembleDocument_def has_data_def has_eden_def)
  then show "bulk_requests (snd (assembleDocument pf st a doc)) = bulk_requests a" by simp
next
  assume "(doc_data doc = None \<or> doc_data doc = Some []) \<and> (doc_eden doc = None \<or> doc_eden doc = Some [])
       \<and> doc_children doc = Some children \<and> children \<noteq> []"
  then show "assembleDocument pf st a doc = some_result (assembleFromChildren pf st a children)"
    by (auto simp add: assembleDocument_def has_data_def has_eden_def has_children_def)
next
  assume "(doc_data doc = None \<or> doc_data doc = Some []) \<and> (doc_eden doc = None \<or> doc_eden doc = Some [])
       \<and> (doc_children doc = None \<or> doc_children doc = Some [])"
  then show "assembleDocument pf st a doc = (Inr None, a)"
    by (auto simp add: assembleDocument_def has_data_def has_eden_def has_children_def)
qed

lemma sample_leaf_values:
  "decodeLeaf sample_platform sample_storage (new_ChunkAssembler None) ''SGVsbG8gV29ybGQ=''
     = (Inr ''Hello World'', new_ChunkAssembler None)"
  "decodeLeaf sample_platform sample_storage (new_ChunkAssembler None) ''Rmlyc3Qg''
     = (Inr ''First '', new_ChunkAssembler None)"
  "decodeLeaf sample_platform sample_storage (new_ChunkAssembler None) ''U2Vjb25k''
     = (Inr ''Second'', new_ChunkAssembler None)"
  "decodeLeaf sample_platform sample_storage (new_ChunkAssembler None) ''QQ==''
     = (Inr ''A'', new_ChunkAssembler None)"
  "decodeLeaf sample_platform sample_storage (new_ChunkAssembler None) ''Qg==''
     = (Inr ''B'', new_ChunkAssembler None)"
  by (simp_all add: decodeLeaf_def new_ChunkAssembler_def sample_platform_def sample_base64_values)

lemma sample_sortedEntries: "sortedEntries sample_eden = rev sample_eden"
  by (simp add: sortedEntries_def sample_eden_def)

text \<open>
  One record holding all three sources, then the same record with the sources emptied
  one after the other.
\<close>

theorem strategy_priority_witness:
  "assembleDocument sample_platform sample_storage (new_ChunkAssembler None) sample_all_sources_doc
     = (Inr (Some ''Hello World''), new_ChunkAssembler None)
   \<and> assembleDocument sample_platform sample_storage (new_ChunkAssembler None)
       (sample_all_sources_doc\<lparr>doc_data := Some []\<rparr>)
     = (Inr (Some ''SecondFirst ''), new_ChunkAssembler None)
   \<and> assembleDocument sample_platform sample_storage (new_ChunkAssembler None)
       (sample_all_sources_doc\<lparr>doc_data := Some [], doc_eden := Some []\<rparr>)
     = (Inr (Some ''AB''), (new_ChunkAssembler None)\<lparr>bulk_requests := [[''a'', ''b'']]\<rparr>)
   \<and> assembleDocument sample_platform sample_storage (new_ChunkAssembler None)
       (sample_all_sources_doc\<lparr>doc_data := Some [], doc_eden := Some [], doc_children := Some []\<rparr>)
     = (Inr None, new_ChunkAssembler None)"
proof -
  let ?a = "new_ChunkAssembler None"
  let ?run = "assembleDocument sample_platform sample_storage ?a"
  have 1: "?run sample_all_sources_doc = some_result (decodeLeaf sample_platform sample_storage ?a ''SGVsbG8gV29ybGQ='')"
    using strategy_priority [of sample_all_sources_doc "''SGVsbG8gV29ybGQ=''" sample_platform sample_storage ?a]
    by (simp add: sample_all_sources_doc_def)
  have 2: "?run (sample_all_sources_doc\<lparr>doc_data := Some []\<rparr>)
      = some_result (assembleFromEden sample_platform sample_storage ?a sample_eden)"
    using strategy_priority [of "sample_all_sources_doc\<lparr>doc_data := Some []\<rparr>" _ sample_platform sample_storage ?a sample_eden]
    by (simp add: sample_all_sources_doc_def sample_eden_def)
  have 3: "?run (sample_all_sources_doc\<lparr>doc_data := Some [], doc_eden := Some []\<rparr>)
      = some_result (assembleFromChildren sample_platform sample_storage ?a [''a'', ''b''])"
    using strategy_priority [of "sample_all_sources_doc\<lparr>doc_data := Some [], doc_eden := Some []\<rparr>"
        _ sample_platform sample_storage ?a _ "[''a'', ''b'']"]
    by (simp add: sample_all_sources_doc_def)
  have 4: "?run (sample_all_sources_doc\<lparr>doc_data := Some [], doc_eden := Some [], doc_children := Some []\<rparr>)
      = (Inr None, ?a)"
    using strategy_priority [of "sample_all_sources_doc\<lparr>doc_data := Some [], doc_eden := Some [], doc_children := Some []\<rparr>"
        _ sample_platform sample_storage ?a]
    by (simp add: sample_all_sources_doc_def)
  have eden: "assembleFromEden sample_platform sample_storage ?a sample_eden = (Inr ''SecondFirst '', ?a)"
    by (simp add: assembleFromEden_def sample_sortedEntries) (simp add: sample_eden_def sample_leaf_values)
  have loop: "childrenLoop sample_platform sample_storage (take 2 sample_chunks)
        (?a\<lparr>bulk_requests := [[''a'', ''b'']]\<rparr>) [''a'', ''b'']
      = (Inr [''A'', ''B''], ?a\<lparr>bulk_requests := [[''a'', ''b'']]\<rparr>)"
    by (simp add: sample_chunks_def blank_doc_def decodeLeaf_def new_ChunkAssembler_def
        sample_platform_def sample_base64_values)
  have children: "assembleFromChildren sample_platform sample_storage ?a [''a'', ''b'']
      = (Inr ''AB'', ?a\<lparr>bulk_requests := [[''a'', ''b'']]\<rparr>)"
    using loop by (simp add: assembleFromChildren_def sample_storage_def sample_chunks_def new_ChunkAssembler_def)
  show ?thesis
    using 1 2 3 4 eden children by (simp add: some_result_def sample_leaf_values)
qed

text \<open>
  Claim C10.  A payload that does not start with the marker \<open>%=\<close> is base64-decoded at
  a leaf when no passphrase is configured and returned verbatim, with no store access,
  when one is; so an inline record with such a payload assembles to different content
  under the two configurations exactly when the payload differs from its own base64
  decoding.
\<close>

theorem unmarked_payload_by_configuration:
  assumes "\<not> isEncrypted d"
  shows "(crypto a = None \<longrightarrow> decodeLeaf pf st a d = (Inr (base64_utf8 pf d), a))
    \<and> (crypto a \<noteq> None \<longrightarrow> decodeLeaf pf st a d = (Inr d, a))
    \<and> (doc_data doc = Some d \<and> d \<noteq> [] \<and> p \<noteq> [] \<longrightarrow>
          fst (assembleDocument pf st (new_ChunkAssembler None) doc) = Inr (Some (base64_utf8 pf d))
          \<and> fst (assembleDocument pf st (new_ChunkAssembler (Some p)) doc) = Inr (Some d)
          \<and> (fst (assembleDocument pf st (new_ChunkAssembler None) doc)
               \<noteq> fst (assembleDocument pf st (new_ChunkAssembler (Some p)) doc)
             \<longleftrightarrow> d \<noteq> base64_utf8 pf d))"
proof -
  have plain: "crypto a = None \<Longrightarrow> decodeLeaf pf st a d = (Inr (base64_utf8 pf d), a)" for a
    by (simp add: decodeLeaf_def)
  have verbatim: "crypto a \<noteq> None \<Longrightarrow> decodeLeaf pf st a d = (Inr d, a)" for a
    using assms by (auto simp add: decodeLeaf_def decrypt_def)
  have inline: "fst (assembleDocument pf st a doc) = Inr (Some s)"
    if "doc_data doc = Some d" "d \<noteq> []" "decodeLeaf pf st a d = (Inr s, a)" for a s
    using that by (simp add: assembleDocument_def has_data_def some_result_def)
  have none: "crypto (new_ChunkAssembler None) = None"
    by (simp add: new_ChunkAssembler_def)
  have some: "p \<noteq> [] \<Longrightarrow> crypto (new_ChunkAssembler (Some p)) \<noteq> None"
    by (simp add: new_ChunkAssembler_def)
  show ?thesis
    using plain verbatim inline [OF _ _ plain [OF none]] inline [OF _ _ verbatim [OF some]]
    by auto
qed

text \<open>
  The inline record of the specification's scenario, base64 of "Hello World", under both
  configurations.
\<close>

theorem unmarked_payload_by_configuration_witness:
  "\<not> isEncrypted ''SGVsbG8gV29ybGQ=''
   \<and> fst (assembleDocument sample_platform sample_storage (new_ChunkAssembler None) sample_inline_doc)
       = Inr (Some ''Hello World'')
   \<and> fst (assembleDocument sample_platform sample_storage (new_ChunkAssembler (Some ''pw'')) sample_inline_doc)
       = Inr (Some ''SGVsbG8gV29ybGQ='')"
proof -
  have h: "\<not> isEncrypted ''SGVsbG8gV29ybGQ=''"
    by (simp add: isEncrypted_def HKDF_PREFIX_def)
  from unmarked_payload_by_configuration [OF h, of _ sample_platform sample_storage sample_inline_doc "''pw''"]
  show ?thesis using h
    by (simp add: sample_inline_doc_def sample_platform_def sample_base64_values)
qed

lemma decrypt_unmarked: "\<not> isEncrypted d \<Longrightarrow> decrypt pf st c d = (Inr d, c)"
  by (simp add: decrypt_def)

lemma decrypt_cached:
  "pbkdf2Salt c \<noteq> None \<Longrightarrow> snd (decrypt pf st c d) = c"
  by (auto simp add: decrypt_def getPBKDF2Salt_def split: sum.splits)

lemma decrypt_fetch_ok:
  assumes "pbkdf2Salt c = None" and "salt_available st" and "isEncrypted d"
  shows "salt_requests (snd (decrypt pf st c d)) = salt_requests c + 1
    \<and> pbkdf2Salt (snd (decrypt pf st c d)) \<noteq> None"
  using assms
  by (auto simp add: decrypt_def getPBKDF2Salt_def salt_available_def Let_def
      split: sum.splits option.splits)

lemma decrypt_fetch_fails:
  assumes "pbkdf2Salt c = None" and "\<not> salt_available st" and "isEncrypted d"
  shows "salt_requests (snd (decrypt pf st c d)) = salt_requests c + 1
    \<and> pbkdf2Salt (snd (decrypt pf st c d)) = None
    \<and> isl (fst (decrypt pf st c d))"
  using assms
  by (auto simp add: decrypt_def getPBKDF2Salt_def salt_available_def Let_def
      split: sum.splits option.splits)

lemma decrypt_seq_Cons_snd:
  "snd (decrypt_seq pf st c (d # ds)) = snd (decrypt_seq pf st (snd (decrypt pf st c d)) ds)"
  by (simp split: prod.splits)

lemma decrypt_seq_Cons_fst:
  "fst (decrypt_seq pf st c (d # ds))
     = fst (decrypt pf st c d) # fst (decrypt_seq pf st (snd (decrypt pf st c d)) ds)"
  by (simp split: prod.splits)

lemma decrypt_seq_cached:
  "pbkdf2Salt c \<noteq> None \<Longrightarrow> snd (decrypt_seq pf st c ds) = c"
proof (induction ds arbitrary: c)
  case Nil
  then show ?case by simp
next
  case (Cons d ds)
  from Cons.prems have "snd (decrypt pf st c d) = c" by (rule decrypt_cached)
  with Cons show ?case by (simp only: decrypt_seq_Cons_snd)
qed

lemma decrypt_seq_fetch_ok:
  assumes "salt_available st"
  shows "pbkdf2Salt c = None \<Longrightarrow>
    salt_requests (snd (decrypt_seq pf st c ds))
      = salt_requests c + (if list_ex isEncrypted ds then 1 else 0)"
proof (induction ds arbitrary: c)
  case Nil
  then show ?case by simp
next
  case (Cons d ds)
  let ?c' = "snd (decrypt pf st c d)"
  show ?case
  proof (cases "isEncrypted d")
    case True
    from decrypt_fetch_ok [OF Cons.prems assms True, of pf]
    have c': "salt_requests ?c' = salt_requests c + 1" "pbkdf2Salt ?c' \<noteq> None" by simp_all
    from decrypt_seq_cached [OF c'(2)] have "snd (decrypt_seq pf st ?c' ds) = ?c'" .
    with c' True show ?thesis by (simp only: decrypt_seq_Cons_snd) simp
  next
    case False
    then have "?c' = c" by (simp add: decrypt_unmarked)
    with Cons.IH [OF Cons.prems] False show ?thesis by (simp only: decrypt_seq_Cons_snd) simp
  qed
qed

lemma decrypt_seq_fetch_fails:
  assumes "\<not> salt_available st"
  shows "pbkdf2Salt c = None \<Longrightarrow>
    salt_requests (snd (decrypt_seq pf st c ds)) = salt_requests c + length (filter isEncrypted ds)
    \<and> list_all isl (map snd (filter (\<lambda>x. isEncrypted (fst x)) (zip ds (fst (decrypt_seq pf st c ds)))))"
proof (induction ds arbitrary: c)
  case Nil
  then show ?case by simp
next
  case (Cons d ds)
  let ?c' = "snd (decrypt pf st c d)"
  show ?case
  proof (cases "isEncrypted d")
    case True
    from decrypt_fetch_fails [OF Cons.prems assms True, of pf]
    have c': "salt_requests ?c' = salt_requests c + 1" "pbkdf2Salt ?c' = None"
      "isl (fst (decrypt pf st c d))" by simp_all
    from Cons.IH [OF c'(2)] c' True show ?thesis
      by (simp only: decrypt_seq_Cons_snd decrypt_seq_Cons_fst) simp
  next
    case False
    then have "?c' = c" by (simp add: decrypt_unmarked)
    with Cons.IH [OF Cons.prems] False show ?thesis
      by (simp only: decrypt_seq_Cons_snd decrypt_seq_Cons_fst) simp
  qed
qed

text \<open>
  Claim C5, as amended.  Over any sequence of \<open>decrypt\<close> calls on one object: with a
  cached salt the store is never asked; with no cached salt and a usable salt record the
  store is asked once, at the first marked payload; with no cached salt and no usable
  record nothing is ever cached, so every marked payload asks the store again and
  fails.
\<close>

theorem salt_fetch_cached_on_success_only:
  "(pbkdf2Salt c \<noteq> None \<longrightarrow> salt_requests (snd (decrypt_seq pf st c ds)) = salt_requests c)
   \<and> (pbkdf2Salt c = None \<and> salt_available st \<longrightarrow>
        salt_requests (snd (decrypt_seq pf st c ds))
          = salt_requests c + (if list_ex isEncrypted ds then 1 else 0))
   \<and> (pbkdf2Salt c = None \<and> \<not> salt_available st \<longrightarrow>
        salt_requests (snd (decrypt_seq pf st c ds)) = salt_requests c + length (filter isEncrypted ds)
        \<and> list_all isl (map snd (filter (\<lambda>x. isEncrypted (fst x)) (zip ds (fst (decrypt_seq pf st c ds))))))"
  using decrypt_seq_cached [of c pf st ds] decrypt_seq_fetch_ok [of st c pf ds]
    decrypt_seq_fetch_fails [of st c pf ds]
  by auto

text \<open>
  Three payloads, two of them marked, against a store with the salt record and against
  one without it.
\<close>

theorem salt_fetch_cached_on_success_only_witness:
  "salt_available storage_with_salt
   \<and> salt_requests (snd (decrypt_seq sample_platform storage_with_salt (new_LiveSyncCrypto ''pw'')
        [''%=one'', ''plain'', ''%=two''])) = 1
   \<and> \<not> salt_available storage_without_salt
   \<and> salt_requests (snd (decrypt_seq sample_platform storage_without_salt (new_LiveSyncCrypto ''pw'')
        [''%=one'', ''plain'', ''%=two''])) = 2"
proof -
  have ok: "salt_available storage_with_salt"
    by (simp add: salt_available_def storage_with_salt_def blank_doc_def)
  have bad: "\<not> salt_available storage_without_salt"
    by (simp add: salt_available_def storage_without_salt_def)
  have marked: "filter isEncrypted [''%=one'', ''plain'', ''%=two''] = [''%=one'', ''%=two'']"
    by (simp add: isEncrypted_def HKDF_PREFIX_def)
  have fresh: "pbkdf2Salt (new_LiveSyncCrypto ''pw'') = None" "salt_requests (new_LiveSyncCrypto ''pw'') = 0"
    by (simp_all add: new_LiveSyncCrypto_def)
  from salt_fetch_cached_on_success_only [of "new_LiveSyncCrypto ''pw''" sample_platform storage_with_salt
      "[''%=one'', ''plain'', ''%=two'']"]
    salt_fetch_cached_on_success_only [of "new_LiveSyncCrypto ''pw''" sample_platform storage_without_salt
      "[''%=one'', ''plain'', ''%=two'']"]
  show ?thesis using ok bad marked fresh
    by (simp add: isEncrypted_def HKDF_PREFIX_def)
qed

text \<open>
  Claim C5 as stated fails: after a first \<open>decrypt\<close> has failed because the salt record
  is absent, the second \<open>decrypt\<close> of a marked payload queries the store again (the
  counter goes from 1 to 2) before it fails.
\<close>

theorem salt_refetched_after_failure_counterexample:
  "getDocument storage_without_salt SYNC_PARAMS_DOCID = Inr None
   \<and> isEncrypted ''%=one'' \<and> isEncrypted ''%=two''
   \<and> decrypt sample_platform storage_without_salt (new_LiveSyncCrypto ''pw'') ''%=one''
       = (Inl (Error ''Decryption failed: Failed to load encryption salt: Sync parameters document not found. Make sure the database is a valid LiveSync database with encryption enabled.''),
          (new_LiveSyncCrypto ''pw'')\<lparr>salt_requests := 1\<rparr>)
   \<and> decrypt sample_platform storage_without_salt ((new_LiveSyncCrypto ''pw'')\<lparr>salt_requests := 1\<rparr>) ''%=two''
       = (Inl (Error ''Decryption failed: Failed to load encryption salt: Sync parameters document not found. Make sure the database is a valid LiveSync database with encryption enabled.''),
          (new_LiveSyncCrypto ''pw'')\<lparr>salt_requests := 2\<rparr>)"
  by (simp add: storage_without_salt_def isEncrypted_def HKDF_PREFIX_def decrypt_def getPBKDF2Salt_def
      new_LiveSyncCrypto_def salt_error_def decrypt_error_def)
section \<open>Searching the note repositories\<close>

text \<open>
  \<open>includes\<close> is the sublist relation; the empty query is included in every string, so
  \<open>MemoryNoteRepository.search\<close> answers it with all notes, while
  \<open>DiskNoteRepository.search\<close> answers every blank query with the empty list and other
  queries with the notes whose lowered path or content includes the lowered query.
\<close>

lemma str_includes_sublist: "str_includes s q = sublist q s"
  by (induction s) (auto simp: sublist_Cons_right)

lemma MemoryNoteRepository_search_empty_query:
  "MemoryNoteRepository_search notes [] = MemoryNoteRepository_getAll notes"
proof -
  have "str_includes s []" for s by (cases s) simp_all
  then show ?thesis
    by (simp add: MemoryNoteRepository_search_def MemoryNoteRepository_getAll_def matches_def toLowerCase_def)
qed

lemma MemoryNoteRepository_search_substring:
  "MemoryNoteRepository_search notes query
     = filter (\<lambda>note. sublist (toLowerCase query) (toLowerCase (note_path note))
                        \<or> sublist (toLowerCase query) (toLowerCase (note_content note)))
         (MemoryNoteRepository_getAll notes)"
  by (simp add: MemoryNoteRepository_search_def MemoryNoteRepository_getAll_def matches_def [abs_def]
      str_includes_sublist Let_def)

lemma DiskNoteRepository_search_blank:
  "trim query = [] \<Longrightarrow> DiskNoteRepository_search getAll query = Inr []"
  by (simp add: DiskNoteRepository_search_def)

lemma DiskNoteRepository_search_nonblank:
  "trim query \<noteq> [] \<Longrightarrow> DiskNoteRepository_search (Inr notes) query
     = Inr (filter (\<lambda>note. sublist (toLowerCase query) (toLowerCase (note_path note))
                         \<or> sublist (toLowerCase query) (toLowerCase (note_content note))) notes)"
  by (simp add: DiskNoteRepository_search_def matches_def [abs_def] str_includes_sublist Let_def)

lemma sample_lower:
  "toLowerCase ''hello.md'' = ''hello.md''" "toLowerCase ''Hello World'' = ''hello world''"
  "toLowerCase ''gone.md'' = ''gone.md''" "toLowerCase ''old text'' = ''old text''"
  "toLowerCase '' '' = '' ''"
  by (simp_all add: toLowerCase_def lower_char_def)

text \<open>
  Claim C8 fails on \<open>MemoryNoteRepository\<close>: for the blank queries \<open>""\<close> and \<open>" "\<close> its
  \<open>search\<close> returns the stored notes, where \<open>DiskNoteRepository.search\<close> on the same
  notes returns the empty list.
\<close>

theorem memory_search_blank_query_returns_notes:
  "trim [] = [] \<and> trim '' '' = []
   \<and> MemoryNoteRepository_search [(''gone.md'', stale_note), (''hello.md'', hello_note)] []
       = [stale_note, hello_note]
   \<and> MemoryNoteRepository_search [(''gone.md'', stale_note), (''hello.md'', hello_note)] '' ''
       = [stale_note, hello_note]
   \<and> DiskNoteRepository_search (Inr [stale_note, hello_note]) [] = Inr []
   \<and> DiskNoteRepository_search (Inr [stale_note, hello_note]) '' '' = Inr []"
  by (simp add: trim_def is_whitespace_def MemoryNoteRepository_search_def DiskNoteRepository_search_def
      matches_def stale_note_def hello_note_def toLowerCase_def lower_char_def)
section \<open>The synchronisation passes\<close>

text \<open>
  \<open>cursor_after_writes\<close> read by position: every note write stands before every cursor
  write, and has resolved.
\<close>

lemma cursor_after_writes_nth:
  "cursor_after_writes evs \<Longrightarrow> i < length evs \<Longrightarrow> is_cursor_write (ev_call (evs ! i)) \<Longrightarrow>
   j < length evs \<Longrightarrow> is_note_write (ev_call (evs ! j)) \<Longrightarrow> j < i \<and> ev_resolved (evs ! j)"
proof (induction evs arbitrary: i j)
  case Nil
  then show ?case by simp
next
  case (Cons e es)
  have disjoint: "\<And>c. is_cursor_write c \<Longrightarrow> \<not> is_note_write c"
    by (case_tac c) simp_all
  show ?case
  proof (cases i)
    case 0
    with Cons.prems have cw: "is_cursor_write (ev_call e)" by simp
    with Cons.prems(1) have none: "list_all (\<lambda>x. \<not> is_note_write (ev_call x)) es" by simp
    show ?thesis
    proof (cases j)
      case 0
      with Cons.prems(5) cw disjoint show ?thesis by auto
    next
      case (Suc j')
      with Cons.prems(4,5) none show ?thesis by (auto simp: list_all_length)
    qed
  next
    case (Suc i')
    with Cons.prems have i': "i' < length es" "is_cursor_write (ev_call (es ! i'))" by simp_all
    show ?thesis
    proof (cases j)
      case 0
      with Cons.prems(5) have nw: "is_note_write (ev_call e)" by simp
      with disjoint have ncw: "\<not> is_cursor_write (ev_call e)" by auto
      have "ev_resolved e"
      proof (rule ccontr)
        assume "\<not> ev_resolved e"
        with Cons.prems(1) nw ncw have "list_all (\<lambda>x. \<not> is_cursor_write (ev_call x)) es" by simp
        with i' show False by (auto simp: list_all_length)
      qed
      with 0 Suc show ?thesis by simp
    next
      case (Suc j')
      with Cons.prems have j': "j' < length es" "is_note_write (ev_call (es ! j'))" by simp_all
      from Cons.prems(1) have "cursor_after_writes es" by (simp split: if_splits)
      from Cons.IH [OF this i' j'] Suc \<open>i = Suc i'\<close> show ?thesis by simp
    qed
  qed
qed

lemma reads_only_simps [simp]:
  "reads_only g []"
  "reads_only g (e # es) = (ev_guarded e = g \<and> \<not> is_note_write (ev_call e) \<and> \<not> is_cursor_write (ev_call e) \<and> reads_only g es)"
  "reads_only g (xs @ ys) = (reads_only g xs \<and> reads_only g ys)"
  by (auto simp: reads_only_def)

lemma caw_reads_append:
  "reads_only g xs \<Longrightarrow> cursor_after_writes (xs @ ys) = cursor_after_writes ys"
  by (induction xs) simp_all

lemma reads_only_no_write:
  "reads_only g xs \<Longrightarrow> list_all (\<lambda>x. \<not> is_note_write (ev_call x)) xs"
  "reads_only g xs \<Longrightarrow> list_all (\<lambda>x. \<not> is_cursor_write (ev_call x)) xs"
  "reads_only g xs \<Longrightarrow> list_all (\<lambda>x. \<not> is_delete (ev_call x)) xs"
  "reads_only g xs \<Longrightarrow> list_all (\<lambda>x. ev_guarded x = g) xs"
  "reads_only g xs \<Longrightarrow> upserted_ids xs = {}"
proof -
  have nd: "\<And>c. \<not> is_note_write c \<Longrightarrow> \<not> is_delete c \<and> saved_by c = []"
    by (case_tac c) simp_all
  show "reads_only g xs \<Longrightarrow> list_all (\<lambda>x. \<not> is_note_write (ev_call x)) xs"
    "reads_only g xs \<Longrightarrow> list_all (\<lambda>x. \<not> is_cursor_write (ev_call x)) xs"
    "reads_only g xs \<Longrightarrow> list_all (\<lambda>x. ev_guarded x = g) xs"
    by (auto simp: reads_only_def list_all_iff)
  show "reads_only g xs \<Longrightarrow> list_all (\<lambda>x. \<not> is_delete (ev_call x)) xs"
    using nd by (auto simp: reads_only_def list_all_iff)
  show "reads_only g xs \<Longrightarrow> upserted_ids xs = {}"
    using nd by (auto simp: reads_only_def list_all_iff upserted_ids_def)
qed

lemma perform_eq:
  "f (world s) = (r, w') \<Longrightarrow>
   perform c f s = (r, s\<lparr>world := w', trace := trace s @ [\<lparr>ev_call = c, ev_resolved = \<not> isl r, ev_guarded = isRunning (status s)\<rparr>]\<rparr>)"
  by (simp add: perform_def)

lemma perform_facts:
  "trace (snd (perform c f s))
     = trace s @ [\<lparr>ev_call = c, ev_resolved = \<not> isl (fst (perform c f s)), ev_guarded = isRunning (status s)\<rparr>]"
  "status (snd (perform c f s)) = status s"
  "world (snd (perform c f s)) = snd (f (world s))"
  "fst (perform c f s) = fst (f (world s))"
  by (simp_all add: perform_def split: prod.splits)

lemma memory_backedD:
  assumes "memory_backed co notes_of"
  shows "notes_of (snd (client_getAllDocuments co w)) = notes_of w"
    and "notes_of (snd (client_getDatabaseInfo co w)) = notes_of w"
    and "notes_of (snd (client_getChanges co since w)) = notes_of w"
    and "notes_of (snd (assembler_assembleDocument co doc w)) = notes_of w"
    and "notes_of (snd (repository_count co w)) = notes_of w"
    and "notes_of (snd (stateStorage_getState co w)) = notes_of w"
    and "notes_of (snd (stateStorage_updateState co p w)) = notes_of w"
    and "notes_of (snd (repository_saveMany co ns w)) = MemoryNoteRepository_saveMany (notes_of w) ns"
    and "notes_of (snd (repository_deleteMany co ids w)) = MemoryNoteRepository_deleteMany (notes_of w) ids"
  using assms by (simp_all add: memory_backed_def)

text \<open>
  What each part of a pass adds to the trace.  The loop of \<open>processDocuments\<close> only
  calls the assembler; \<open>processDocuments\<close> then issues at most one \<open>saveMany\<close>.
\<close>

lemma processLoop_shape:
  "\<exists>asm. trace (snd (processLoop co documents n notesToSave s)) = trace s @ asm
     \<and> reads_only (isRunning (status s)) asm
     \<and> status (snd (processLoop co documents n notesToSave s)) = status s
     \<and> (memory_backed co notes_of \<longrightarrow>
          notes_of (world (snd (processLoop co documents n notesToSave s))) = notes_of (world s))"
proof (induction documents arbitrary: n notesToSave s)
  case Nil
  then show ?case by simp
next
  case (Cons doc documents)
  show ?case
  proof (cases "skipped doc")
    case True
    with Cons.IH show ?thesis by simp
  next
    case False
    obtain r w' where step: "assembler_assembleDocument co doc (world s) = (r, w')"
      by (cases "assembler_assembleDocument co doc (world s)")
    let ?ev = "\<lparr>ev_call = AssembleDocument doc, ev_resolved = \<not> isl r, ev_guarded = isRunning (status s)\<rparr>"
    let ?s' = "s\<lparr>world := w', trace := trace s @ [?ev]\<rparr>"
    from step have p: "perform (AssembleDocument doc) (assembler_assembleDocument co doc) s = (r, ?s')"
      by (rule perform_eq)
    obtain n' ns' where rest: "processLoop co (doc # documents) n notesToSave s = processLoop co documents n' ns' ?s'"
      using False p by (cases r; cases "projr r") (auto split: sum.splits option.splits)
    from Cons.IH [of n' ns' ?s'] obtain asm where
      "trace (snd (processLoop co documents n' ns' ?s')) = trace ?s' @ asm"
      "reads_only (isRunning (status ?s')) asm"
      "status (snd (processLoop co documents n' ns' ?s')) = status ?s'"
      "memory_backed co notes_of \<longrightarrow>
          notes_of (world (snd (processLoop co documents n' ns' ?s'))) = notes_of (world ?s')" by blast
    moreover have "memory_backed co notes_of \<longrightarrow> notes_of w' = notes_of (world s)"
      using memory_backedD(4) [of co notes_of doc "world s"] step by simp
    ultimately show ?thesis using rest
      by (intro exI [of _ "?ev # asm"]) simp
  qed
qed

lemma clean_simps [simp]:
  "clean g ok []"
  "clean g ok (e # es) = (ev_guarded e = g \<and> \<not> is_cursor_write (ev_call e)
      \<and> (ok \<and> is_note_write (ev_call e) \<longrightarrow> ev_resolved e) \<and> clean g ok es)"
  "clean g ok (xs @ ys) = (clean g ok xs \<and> clean g ok ys)"
  by (auto simp: clean_def)

lemma no_writes_simps [simp]:
  "no_writes g []"
  "no_writes g (e # es) = (ev_guarded e = g \<and> \<not> is_note_write (ev_call e) \<and> no_writes g es)"
  "no_writes g (xs @ ys) = (no_writes g xs \<and> no_writes g ys)"
  by (auto simp: no_writes_def)

lemma reads_only_clean: "reads_only g evs \<Longrightarrow> clean g ok evs"
  by (induction evs) simp_all

lemma clean_weaken: "clean g True evs \<Longrightarrow> clean g ok evs"
  by (induction evs) simp_all

lemma clean_guarded: "clean g ok evs \<Longrightarrow> list_all (\<lambda>e. ev_guarded e = g) evs"
  by (induction evs) simp_all

lemma no_writes_guarded: "no_writes g evs \<Longrightarrow> list_all (\<lambda>e. ev_guarded e = g) evs"
  by (induction evs) simp_all

lemma no_writes_no_delete: "no_writes g evs \<Longrightarrow> list_all (\<lambda>e. \<not> is_delete (ev_call e)) evs"
proof (induction evs)
  case Nil
  then show ?case by simp
next
  case (Cons e es)
  then show ?case by (cases "ev_call e") simp_all
qed

lemma no_writes_upserted: "no_writes g evs \<Longrightarrow> upserted_ids evs = {}"
proof (induction evs)
  case Nil
  then show ?case by (simp add: upserted_ids_def)
next
  case (Cons e es)
  then show ?case by (cases "ev_call e") (simp_all add: upserted_ids_def)
qed

lemma no_writes_no_note_write:
  "no_writes g evs \<Longrightarrow> list_all (\<lambda>x. \<not> is_note_write (ev_call x)) evs"
  by (induction evs) simp_all

lemma clean_no_cursor_write:
  "clean g ok evs \<Longrightarrow> list_all (\<lambda>x. \<not> is_cursor_write (ev_call x)) evs"
  by (induction evs) simp_all

lemma caw_no_writes: "no_writes g evs \<Longrightarrow> cursor_after_writes evs"
  by (induction evs) (auto simp: no_writes_no_note_write)

lemma caw_clean: "clean g ok evs \<Longrightarrow> cursor_after_writes evs"
  by (induction evs) (auto simp: clean_no_cursor_write)

lemma caw_clean_then_no_writes:
  "clean g True pre \<Longrightarrow> no_writes g post \<Longrightarrow> cursor_after_writes (pre @ post)"
  by (induction pre) (auto simp: caw_no_writes)

lemma upserted_ids_append [simp]: "upserted_ids (xs @ ys) = upserted_ids xs \<union> upserted_ids ys"
  by (simp add: upserted_ids_def)

lemma map_of_saveMany:
  "i \<notin> note_id ` set ns \<Longrightarrow> map_of (MemoryNoteRepository_saveMany m ns) i = map_of m i"
  unfolding MemoryNoteRepository_saveMany_def
  by (induction ns arbitrary: m) (simp_all add: update_conv')

lemma processDocuments_shape:
  "\<exists>evs. trace (snd (processDocuments co documents s)) = trace s @ evs
     \<and> clean (isRunning (status s)) (\<not> isl (fst (processDocuments co documents s))) evs
     \<and> list_all (\<lambda>e. \<not> is_delete (ev_call e)) evs
     \<and> status (snd (processDocuments co documents s)) = status s
     \<and> (memory_backed co notes_of \<longrightarrow>
          (\<forall>i. i \<notin> upserted_ids evs \<longrightarrow>
             map_of (notes_of (world (snd (processDocuments co documents s)))) i
               = map_of (notes_of (world s)) i))"
proof -
  let ?n0 = "\<lparr>processedCount = 0, skippedCount = 0, errorCount = 0\<rparr>"
  obtain n notesToSave s1 where loop: "processLoop co documents ?n0 [] s = ((n, notesToSave), s1)"
    by (cases "processLoop co documents ?n0 [] s") auto
  from processLoop_shape [of co documents ?n0 "[]" s notes_of] loop
  obtain asm where asm: "trace s1 = trace s @ asm" "reads_only (isRunning (status s)) asm"
    "status s1 = status s" "memory_backed co notes_of \<longrightarrow> notes_of (world s1) = notes_of (world s)"
    by auto
  show ?thesis
  proof (cases "length notesToSave > 0")
    case False
    with loop have "processDocuments co documents s = (Inr n, s1)"
      by (simp add: processDocuments_def)
    with asm show ?thesis
      by (intro exI [of _ asm]) (simp add: reads_only_clean reads_only_no_write)
  next
    case True
    let ?p = "perform (SaveMany notesToSave) (repository_saveMany co notesToSave) s1"
    let ?ev = "\<lparr>ev_call = SaveMany notesToSave, ev_resolved = \<not> isl (fst ?p),
                ev_guarded = isRunning (status s)\<rparr>"
    from True loop have pd: "processDocuments co documents s = await (\<lambda>s. perform (SaveMany notesToSave) (repository_saveMany co notesToSave) s) (\<lambda>u. resolve n) s1"
      by (simp add: processDocuments_def)
    have fst_pd: "isl (fst (processDocuments co documents s)) = isl (fst ?p)"
      and snd_pd: "snd (processDocuments co documents s) = snd ?p"
      unfolding pd by (auto simp: await_def resolve_def split: prod.splits sum.splits)
    have tr: "trace (snd ?p) = trace s @ asm @ [?ev]"
      using asm by (simp add: perform_facts)
    have st: "status (snd ?p) = status s" using asm by (simp add: perform_facts)
    have fr: "memory_backed co notes_of \<longrightarrow>
          (\<forall>i. i \<notin> note_id ` set notesToSave \<longrightarrow>
             map_of (notes_of (world (snd ?p))) i = map_of (notes_of (world s)) i)"
      using asm(4) by (auto simp add: perform_facts memory_backedD(8) map_of_saveMany)
    have ups: "upserted_ids (asm @ [?ev]) = note_id ` set notesToSave"
      using asm(2) by (simp add: reads_only_no_write) (simp add: upserted_ids_def)
    show ?thesis
      unfolding fst_pd snd_pd
      using tr st fr ups asm(2)
      by (intro exI [of _ "asm @ [?ev]"]) (simp add: reads_only_clean reads_only_no_write)
  qed
qed

lemma fullSync_finish_shape:
  "\<exists>evs. trace (snd (fullSync_finish co result s)) = trace s @ evs
     \<and> no_writes (isRunning (status s)) evs
     \<and> isRunning (status (snd (fullSync_finish co result s))) = isRunning (status s)
     \<and> (memory_backed co notes_of \<longrightarrow>
          notes_of (world (snd (fullSync_finish co result s))) = notes_of (world s))"
proof -
  obtain r1 w1 where 1: "client_getDatabaseInfo co (world s) = (r1, w1)"
    by (cases "client_getDatabaseInfo co (world s)")
  obtain r2 w2 where 2: "repository_count co w1 = (r2, w2)"
    by (cases "repository_count co w1")
  obtain r3 w3 where 3: "stateStorage_updateState co
      \<lparr>state_lastSeq = Some (projr r1), state_lastSyncTime = Some (clock co w2)\<rparr> w2 = (r3, w3)"
    by (cases "stateStorage_updateState co
      \<lparr>state_lastSeq = Some (projr r1), state_lastSyncTime = Some (clock co w2)\<rparr> w2")
  have n1: "memory_backed co notes_of \<longrightarrow> notes_of w1 = notes_of (world s)"
    using memory_backedD(2) [of co notes_of] 1 by (metis snd_conv)
  have n2: "memory_backed co notes_of \<longrightarrow> notes_of w2 = notes_of w1"
    using memory_backedD(5) [of co notes_of] 2 by (metis snd_conv)
  have n3: "memory_backed co notes_of \<longrightarrow> notes_of w3 = notes_of w2"
    using memory_backedD(7) [of co notes_of] 3 by (metis snd_conv)
  show ?thesis
    using 1 2 3 n1 n2 n3
    by (cases r1; cases r2; cases r3)
      (simp_all add: fullSync_finish_def await_def perform_def resolve_def set_status_def Let_def)
qed

lemma await_Inl: "m s = (Inl e, s') \<Longrightarrow> await m k s = (Inl e, s')"
  by (simp add: await_def)

lemma await_Inr: "m s = (Inr x, s') \<Longrightarrow> await m k s = k x s'"
  by (simp add: await_def)

text \<open>
  The \<open>try\<close> blocks: the note writes come first, the cursor write after them and only
  when they resolved, and \<open>status.isRunning\<close> is not touched.
\<close>

lemma fullSync_try_shape:
  "\<exists>evs. pass_shape s (snd (fullSync_try co s)) evs
     \<and> list_all (\<lambda>e. \<not> is_delete (ev_call e)) evs
     \<and> (memory_backed co notes_of \<longrightarrow>
          (\<forall>i. i \<notin> upserted_ids evs \<longrightarrow>
             map_of (notes_of (world (snd (fullSync_try co s)))) i = map_of (notes_of (world s)) i))"
proof -
  let ?g = "isRunning (status s)"
  obtain r1 w1 where 1: "client_getAllDocuments co (world s) = (r1, w1)"
    by (cases "client_getAllDocuments co (world s)")
  let ?ev1 = "\<lparr>ev_call = GetAllDocuments, ev_resolved = \<not> isl r1, ev_guarded = ?g\<rparr>"
  let ?s1 = "s\<lparr>world := w1, trace := trace s @ [?ev1]\<rparr>"
  from 1 have p1: "perform GetAllDocuments (client_getAllDocuments co) s = (r1, ?s1)"
    by (rule perform_eq)
  have n1: "memory_backed co notes_of \<longrightarrow> notes_of w1 = notes_of (world s)"
    using memory_backedD(1) [of co notes_of] 1 by (metis snd_conv)
  have u1: "upserted_ids [?ev1] = {}" by (simp add: upserted_ids_def)
  show ?thesis
  proof (cases r1)
    case (Inl e)
    with p1 have "fullSync_try co s = (Inl e, ?s1)"
      by (simp add: fullSync_try_def await_Inl)
    with n1 show ?thesis
      by (intro exI [of _ "[?ev1]"]) (simp add: pass_shape_def)
  next
    case (Inr documents)
    with p1 have run: "fullSync_try co s
        = await (processDocuments co documents) (fullSync_finish co) ?s1"
      by (simp add: fullSync_try_def await_Inr)
    obtain r2 s2 where 2: "processDocuments co documents ?s1 = (r2, s2)"
      by (cases "processDocuments co documents ?s1")
    from processDocuments_shape [of co documents ?s1 notes_of] 2
    obtain evs2 where evs2: "trace s2 = trace s @ ?ev1 # evs2" "clean ?g (\<not> isl r2) evs2"
      "list_all (\<lambda>e. \<not> is_delete (ev_call e)) evs2" "status s2 = status s"
      "memory_backed co notes_of \<longrightarrow> (\<forall>i. i \<notin> upserted_ids evs2 \<longrightarrow>
          map_of (notes_of (world s2)) i = map_of (notes_of w1) i)"
      by auto
    have u2: "upserted_ids (?ev1 # evs2) = upserted_ids evs2"
      using u1 upserted_ids_append [of "[?ev1]" evs2] by simp
    show ?thesis
    proof (cases r2)
      case (Inl e)
      with run 2 have "fullSync_try co s = (Inl e, s2)" by (simp add: await_Inl)
      with evs2 n1 u2 show ?thesis
        by (intro exI [of _ "?ev1 # evs2"])
          (simp add: pass_shape_def clean_guarded caw_clean [of ?g "\<not> isl r2"])
    next
      case (Inr result)
      with run 2 have fin: "fullSync_try co s = fullSync_finish co result s2" by (simp add: await_Inr)
      from fullSync_finish_shape [of co result s2 notes_of] evs2(4)
      obtain evs3 where evs3: "trace (snd (fullSync_finish co result s2)) = trace s2 @ evs3"
        "no_writes ?g evs3"
        "isRunning (status (snd (fullSync_finish co result s2))) = ?g"
        "memory_backed co notes_of \<longrightarrow>
          notes_of (world (snd (fullSync_finish co result s2))) = notes_of (world s2)"
        by auto
      from Inr evs2(2) have c2: "clean ?g True evs2" by simp
      have caw: "cursor_after_writes (?ev1 # evs2 @ evs3)"
        using caw_clean_then_no_writes [OF c2 evs3(2)] by simp
      have u3: "upserted_ids (?ev1 # evs2 @ evs3) = upserted_ids evs2"
        using u1 upserted_ids_append [of "[?ev1]" "evs2 @ evs3"] no_writes_upserted [OF evs3(2)]
        by simp
      show ?thesis
        unfolding fin
        using evs2 evs3 n1 caw u3 c2
        by (intro exI [of _ "?ev1 # evs2 @ evs3"])
          (simp add: pass_shape_def clean_guarded no_writes_guarded no_writes_no_delete)
    qed
  qed
qed

lemma incrementalSync_finish_shape:
  "\<exists>evs. trace (snd (incrementalSync_finish co changes pc s)) = trace s @ evs
     \<and> no_writes (isRunning (status s)) evs
     \<and> isRunning (status (snd (incrementalSync_finish co changes pc s))) = isRunning (status s)"
proof -
  let ?p = "\<lparr>state_lastSeq = Some (last_seq changes), state_lastSyncTime = Some (clock co (world s))\<rparr>"
  obtain r1 w1 where 1: "stateStorage_updateState co ?p (world s) = (r1, w1)"
    by (cases "stateStorage_updateState co ?p (world s)")
  obtain r2 w2 where 2: "repository_count co w1 = (r2, w2)"
    by (cases "repository_count co w1")
  show ?thesis
    using 1 2
    by (cases r1; cases r2)
      (simp_all add: incrementalSync_finish_def await_def perform_def resolve_def set_status_def Let_def)
qed

lemma incrementalSync_apply_shape:
  "\<exists>evs. trace (snd (incrementalSync_apply co changedDocs deletedIds s)) = trace s @ evs
     \<and> clean (isRunning (status s)) (\<not> isl (fst (incrementalSync_apply co changedDocs deletedIds s))) evs
     \<and> status (snd (incrementalSync_apply co changedDocs deletedIds s)) = status s"
proof -
  let ?g = "isRunning (status s)"
  let ?m1 = "if length changedDocs > 0
      then await (processDocuments co changedDocs) (\<lambda>result. resolve (processedCount result))
      else resolve 0"
  let ?m2 = "if length deletedIds > 0
      then perform (DeleteMany deletedIds) (repository_deleteMany co deletedIds)
      else resolve ()"
  obtain r1 s1 where 1: "?m1 s = (r1, s1)" by (cases "?m1 s")
  have "\<exists>evs1. trace s1 = trace s @ evs1 \<and> clean ?g (\<not> isl r1) evs1 \<and> status s1 = status s"
  proof (cases "length changedDocs > 0")
    case False
    with 1 show ?thesis by (auto simp: resolve_def)
  next
    case True
    obtain r s' where pd: "processDocuments co changedDocs s = (r, s')"
      by (cases "processDocuments co changedDocs s")
    from processDocuments_shape [of co changedDocs s "\<lambda>w. []"] pd
    obtain evs where "trace s' = trace s @ evs" "clean ?g (\<not> isl r) evs" "status s' = status s"
      by auto
    moreover from True 1 pd have "s1 = s' \<and> isl r1 = isl r"
      by (cases r) (auto simp: await_def resolve_def)
    ultimately show ?thesis by auto
  qed
  then obtain evs1 where evs1: "trace s1 = trace s @ evs1" "clean ?g (\<not> isl r1) evs1" "status s1 = status s"
    by blast
  show ?thesis
  proof (cases r1)
    case (Inl e)
    with 1 have "incrementalSync_apply co changedDocs deletedIds s = (Inl e, s1)"
      by (simp add: incrementalSync_apply_def await_Inl)
    with evs1 Inl show ?thesis by auto
  next
    case (Inr pc)
    with 1 have run: "incrementalSync_apply co changedDocs deletedIds s
        = await ?m2 (\<lambda>u. resolve pc) s1"
      by (simp add: incrementalSync_apply_def await_Inr)
    from Inr evs1 have c1: "clean ?g True evs1" by simp
    show ?thesis
    proof (cases "length deletedIds > 0")
      case False
      with run have "incrementalSync_apply co changedDocs deletedIds s = (Inr pc, s1)"
        by (simp add: await_def resolve_def)
      with evs1 c1 show ?thesis by auto
    next
      case True
      obtain r2 w2 where 2: "repository_deleteMany co deletedIds (world s1) = (r2, w2)"
        by (cases "repository_deleteMany co deletedIds (world s1)")
      let ?ev = "\<lparr>ev_call = DeleteMany deletedIds, ev_resolved = \<not> isl r2, ev_guarded = ?g\<rparr>"
      let ?s2 = "s1\<lparr>world := w2, trace := trace s1 @ [?ev]\<rparr>"
      from 2 evs1(3) have p: "perform (DeleteMany deletedIds) (repository_deleteMany co deletedIds) s1 = (r2, ?s2)"
        by (simp add: perform_def)
      with True run have res: "incrementalSync_apply co changedDocs deletedIds s
          = (case r2 of Inl e \<Rightarrow> (Inl e, ?s2) | Inr u \<Rightarrow> (Inr pc, ?s2))"
        by (cases r2) (simp_all add: await_def resolve_def)
      show ?thesis
        unfolding res using evs1 c1
        by (intro exI [of _ "evs1 @ [?ev]"]) (cases r2; simp add: clean_weaken)
    qed
  qed
qed

lemma incrementalSync_try_shape:
  "\<exists>evs. pass_shape s (snd (incrementalSync_try co s)) evs"
proof -
  let ?g = "isRunning (status s)"
  let ?since = "lastSeq (status s)"
  obtain r1 w1 where 1: "client_getChanges co ?since (world s) = (r1, w1)"
    by (cases "client_getChanges co ?since (world s)")
  let ?ev1 = "\<lparr>ev_call = GetChanges ?since, ev_resolved = \<not> isl r1, ev_guarded = ?g\<rparr>"
  let ?s1 = "s\<lparr>world := w1, trace := trace s @ [?ev1]\<rparr>"
  from 1 have p1: "perform (GetChanges ?since) (client_getChanges co ?since) s = (r1, ?s1)"
    by (rule perform_eq)
  show ?thesis
  proof (cases r1)
    case (Inl e)
    with p1 have "incrementalSync_try co s = (Inl e, ?s1)"
      by (simp add: incrementalSync_try_def await_Inl)
    then show ?thesis
      by (intro exI [of _ "[?ev1]"]) (simp add: pass_shape_def)
  next
    case (Inr changes)
    show ?thesis
    proof (cases "no_changes changes")
      case True
      with Inr p1 have "snd (incrementalSync_try co s)
          = set_status (\<lambda>st. st\<lparr>lastSyncTime := Some (clock co (world ?s1)), lastSyncSuccess := True,
                                  documentsCount := 0, error := None\<rparr>) ?s1"
        by (simp add: incrementalSync_try_def await_Inr)
      then show ?thesis
        by (intro exI [of _ "[?ev1]"]) (simp add: pass_shape_def set_status_def)
    next
      case False
      obtain changedDocs deletedIds where sep: "separate (the (results changes)) = (changedDocs, deletedIds)"
        by (cases "separate (the (results changes))")
      with False Inr p1 have run: "incrementalSync_try co s
          = await (incrementalSync_apply co changedDocs deletedIds) (incrementalSync_finish co changes) ?s1"
        by (simp add: incrementalSync_try_def await_Inr)
      obtain r2 s2 where 2: "incrementalSync_apply co changedDocs deletedIds ?s1 = (r2, s2)"
        by (cases "incrementalSync_apply co changedDocs deletedIds ?s1")
      from incrementalSync_apply_shape [of co changedDocs deletedIds ?s1] 2
      obtain evs2 where evs2: "trace s2 = trace s @ ?ev1 # evs2" "clean ?g (\<not> isl r2) evs2"
        "status s2 = status s"
        by auto
      show ?thesis
      proof (cases r2)
        case (Inl e)
        with run 2 have "incrementalSync_try co s = (Inl e, s2)" by (simp add: await_Inl)
        with evs2 show ?thesis
          by (intro exI [of _ "?ev1 # evs2"])
            (simp add: pass_shape_def clean_guarded caw_clean [of ?g "\<not> isl r2"])
      next
        case (Inr pc)
        with run 2 have fin: "incrementalSync_try co s = incrementalSync_finish co changes pc s2"
          by (simp add: await_Inr)
        from incrementalSync_finish_shape [of co changes pc s2] evs2(3)
        obtain evs3 where evs3: "trace (snd (incrementalSync_finish co changes pc s2)) = trace s2 @ evs3"
          "no_writes ?g evs3"
          "isRunning (status (snd (incrementalSync_finish co changes pc s2))) = ?g"
          by auto
        from Inr evs2(2) have c2: "clean ?g True evs2" by simp
        have caw: "cursor_after_writes (?ev1 # evs2 @ evs3)"
          using caw_clean_then_no_writes [OF c2 evs3(2)] by simp
        show ?thesis
          unfolding fin
          using evs2 evs3 caw c2
          by (intro exI [of _ "?ev1 # evs2 @ evs3"])
            (simp add: pass_shape_def clean_guarded no_writes_guarded)
      qed
    qed
  qed
qed

text \<open>A full pass over the sample world, evaluated.\<close>

lemma sample_assemble_hello:
  "assembleDocument sample_platform sample_storage (new_ChunkAssembler None) hello_doc
     = (Inr (Some ''Hello World''), new_ChunkAssembler None)"
  by (simp add: assembleDocument_def has_data_def hello_doc_def blank_doc_def some_result_def sample_leaf_values)

lemma sample_skipped:
  "\<not> skipped hello_doc" "skipped (snd (hd sample_chunks))" "skipped gone_doc"
  by (simp_all add: skipped_def hello_doc_def gone_doc_def sample_chunks_def blank_doc_def)

lemma sample_make_note: "make_note hello_doc ''Hello World'' 1700 = hello_note"
  by (simp add: make_note_def hello_doc_def hello_note_def blank_doc_def date_or_now_def)

lemma sample_full_run:
  "fullSync sample_co (new_SyncService sample_world0)
     = (Inr (),
        \<lparr>status = \<lparr>isRunning = False, lastSyncTime = Some 1700, lastSyncSuccess = True,
                    documentsCount = 1, lastSeq = Some ''123-abc'', error = None\<rparr>,
         world = \<lparr>sw_notes = [(''gone.md'', stale_note), (''hello.md'', hello_note)],
                   sw_state = \<lparr>state_lastSeq = Some ''123-abc'', state_lastSyncTime = Some 1700\<rparr>,
                   sw_assembler = new_ChunkAssembler None\<rparr>,
         trace = [\<lparr>ev_call = GetAllDocuments, ev_resolved = True, ev_guarded = True\<rparr>,
                  \<lparr>ev_call = AssembleDocument hello_doc, ev_resolved = True, ev_guarded = True\<rparr>,
                  \<lparr>ev_call = SaveMany [hello_note], ev_resolved = True, ev_guarded = True\<rparr>,
                  \<lparr>ev_call = GetDatabaseInfo, ev_resolved = True, ev_guarded = True\<rparr>,
                  \<lparr>ev_call = Count, ev_resolved = True, ev_guarded = True\<rparr>,
                  \<lparr>ev_call = UpdateState \<lparr>state_lastSeq = Some ''123-abc'', state_lastSyncTime = Some 1700\<rparr>,
                    ev_resolved = True, ev_guarded = True\<rparr>]\<rparr>)"
  by (simp add: fullSync_def fullSync_try_def fullSync_finish_def try_catch_finally_def
      processDocuments_def await_def perform_def resolve_def set_status_def Let_def
      new_SyncService_def sample_co_def sample_collaborators_def sample_world0_def
      sample_remote_docs_def sample_skipped sample_assemble_hello sample_make_note
      MemoryNoteRepository_saveMany_def MemoryNoteRepository_count_def JsonFileStorage_updateState_def
      stale_note_def hello_note_def)








text \<open>The passes as \<open>sync\<close> runs them, from an idle service.\<close>

lemma try_catch_finally_facts:
  "trace (snd (try_catch_finally body s)) = trace (snd (body s))"
  "world (snd (try_catch_finally body s)) = world (snd (body s))"
  "\<not> isRunning (status (snd (try_catch_finally body s)))"
  "fst (try_catch_finally body s) = fst (body s)"
  by (simp_all add: try_catch_finally_def set_status_def split: prod.splits sum.splits)

lemma guard_taken:
  "trace (set_status (\<lambda>st. st\<lparr>isRunning := True\<rparr>) s) = trace s"
  "world (set_status (\<lambda>st. st\<lparr>isRunning := True\<rparr>) s) = world s"
  "isRunning (status (set_status (\<lambda>st. st\<lparr>isRunning := True\<rparr>) s))"
  by (simp_all add: set_status_def)

lemma fullSync_shape:
  assumes "\<not> isRunning (status s)"
  shows "\<exists>evs. trace (snd (fullSync co s)) = trace s @ evs
     \<and> list_all ev_guarded evs \<and> cursor_after_writes evs
     \<and> list_all (\<lambda>e. \<not> is_delete (ev_call e)) evs
     \<and> \<not> isRunning (status (snd (fullSync co s)))
     \<and> (memory_backed co notes_of \<longrightarrow>
          (\<forall>i. i \<notin> upserted_ids evs \<longrightarrow>
             map_of (notes_of (world (snd (fullSync co s)))) i = map_of (notes_of (world s)) i))"
proof -
  let ?s0 = "set_status (\<lambda>st. st\<lparr>isRunning := True\<rparr>) s"
  from assms have run: "fullSync co s = try_catch_finally (fullSync_try co) ?s0"
    by (simp add: fullSync_def)
  from fullSync_try_shape [of ?s0 co notes_of] obtain evs where
    "pass_shape ?s0 (snd (fullSync_try co ?s0)) evs"
    "list_all (\<lambda>e. \<not> is_delete (ev_call e)) evs"
    "memory_backed co notes_of \<longrightarrow> (\<forall>i. i \<notin> upserted_ids evs \<longrightarrow>
        map_of (notes_of (world (snd (fullSync_try co ?s0)))) i = map_of (notes_of (world ?s0)) i)"
    by blast
  then show ?thesis
    unfolding run
    by (intro exI [of _ evs]) (simp add: try_catch_finally_facts guard_taken pass_shape_def)
qed

lemma incrementalSync_shape:
  assumes "\<not> isRunning (status s)"
  shows "\<exists>evs. trace (snd (incrementalSync co s)) = trace s @ evs
     \<and> list_all ev_guarded evs \<and> cursor_after_writes evs
     \<and> \<not> isRunning (status (snd (incrementalSync co s)))"
proof -
  let ?s0 = "set_status (\<lambda>st. st\<lparr>isRunning := True\<rparr>) s"
  from assms have run: "incrementalSync co s = try_catch_finally (incrementalSync_try co) ?s0"
    by (simp add: incrementalSync_def)
  from incrementalSync_try_shape [of ?s0 co] obtain evs where
    "pass_shape ?s0 (snd (incrementalSync_try co ?s0)) evs"
    by blast
  then show ?thesis
    unfolding run
    by (intro exI [of _ evs]) (simp add: try_catch_finally_facts guard_taken pass_shape_def)
qed

lemma sync_shape:
  assumes "\<not> isRunning (status s)"
  shows "\<exists>evs. trace (snd (sync co s)) = trace s @ evs
     \<and> list_all ev_guarded evs \<and> cursor_after_writes evs
     \<and> \<not> isRunning (status (snd (sync co s)))"
proof (cases "truthy_str (lastSeq (status s))")
  case False
  with assms have "sync co s = fullSync co s" by (simp add: sync_def)
  with fullSync_shape [OF assms, of co "\<lambda>w. []"] show ?thesis by auto
next
  case True
  with assms have "sync co s = incrementalSync co s" by (simp add: sync_def)
  with incrementalSync_shape [OF assms, of co] show ?thesis by auto
qed

text \<open>
  Claim C1.  A \<open>sync()\<close> that finds \<open>status.isRunning\<close> set returns at once and leaves
  the service as it is: no call is issued, the status is not modified.  A \<open>sync()\<close> that
  finds it clear ends, whether it resolves or throws, with \<open>status.isRunning\<close> clear
  again, and every call of the run was pending under a set guard, so that a second
  \<open>sync()\<close> arriving meanwhile is of the first kind.
\<close>

theorem run_exclusivity:
  "(isRunning (status s) \<longrightarrow> sync co s = (Inr (), s))
   \<and> (\<not> isRunning (status s) \<longrightarrow>
        \<not> isRunning (status (snd (sync co s)))
        \<and> (\<exists>evs. trace (snd (sync co s)) = trace s @ evs \<and> list_all ev_guarded evs))"
proof (intro conjI impI)
  assume "isRunning (status s)"
  then show "sync co s = (Inr (), s)" by (simp add: sync_def)
next
  assume idle: "\<not> isRunning (status s)"
  from sync_shape [OF idle, of co]
  show "\<not> isRunning (status (snd (sync co s)))" by blast
  from sync_shape [OF idle, of co]
  show "\<exists>evs. trace (snd (sync co s)) = trace s @ evs \<and> list_all ev_guarded evs" by blast
qed

text \<open>
  Claim C3.  Among the calls \<open>evs\<close> that one \<open>sync()\<close> issues, full or incremental,
  every \<open>saveMany\<close> and \<open>deleteMany\<close> stands before every \<open>updateState\<close> and has
  resolved: the cursor is written only after the note writes of the pass have been
  awaited and have completed.
\<close>

theorem cursor_written_after_note_writes:
  assumes "trace (snd (sync co s)) = trace s @ evs"
    and "i < length evs" and "is_cursor_write (ev_call (evs ! i))"
    and "j < length evs" and "is_note_write (ev_call (evs ! j))"
  shows "j < i \<and> ev_resolved (evs ! j)"
proof (cases "isRunning (status s)")
  case True
  then have "sync co s = (Inr (), s)" by (simp add: sync_def)
  with assms(1,2) show ?thesis by simp
next
  case False
  from sync_shape [OF False, of co] assms(1) have "cursor_after_writes evs" by auto
  from cursor_after_writes_nth [OF this assms(2-5)] show ?thesis .
qed


text \<open>
  A service in flight, a run whose \<open>getAllDocuments\<close> throws, and a run that completes.
\<close>

theorem run_exclusivity_witness:
  "isRunning (status sample_running_service)
   \<and> sync sample_co sample_running_service = (Inr (), sample_running_service)
   \<and> fst (sync failing_co (new_SyncService sample_world0)) = Inl (Error ''Database connection failed'')
   \<and> \<not> isRunning (status (snd (sync failing_co (new_SyncService sample_world0))))
   \<and> fst (sync sample_co (new_SyncService sample_world0)) = Inr ()
   \<and> \<not> isRunning (status (snd (sync sample_co (new_SyncService sample_world0))))"
proof -
  have running: "isRunning (status sample_running_service)"
    by (simp add: sample_running_service_def set_status_def)
  have idle: "\<not> isRunning (status (new_SyncService sample_world0))"
    by (simp add: new_SyncService_def)
  have throws: "fst (sync failing_co (new_SyncService sample_world0)) = Inl (Error ''Database connection failed'')"
    by (simp add: sync_def fullSync_def fullSync_try_def try_catch_finally_def await_def perform_def
        set_status_def new_SyncService_def failing_co_def sample_collaborators_def)
  have "sync sample_co (new_SyncService sample_world0) = fullSync sample_co (new_SyncService sample_world0)"
    by (simp add: sync_def new_SyncService_def)
  then have completes: "fst (sync sample_co (new_SyncService sample_world0)) = Inr ()"
    by (simp add: sample_full_run)
  from run_exclusivity [of sample_running_service sample_co]
    run_exclusivity [of "new_SyncService sample_world0" failing_co]
    run_exclusivity [of "new_SyncService sample_world0" sample_co]
  show ?thesis using running idle throws completes by simp
qed

lemma sample_separate:
  "separate (the (results sample_changes)) = ([hello_doc], [''gone.md''])"
  by (simp add: sample_changes_def change_is_deleted_def hello_doc_def blank_doc_def)

lemma sample_incremental_run:
  "trace (snd (sync sample_co sample_cursor_service))
     = trace sample_cursor_service @ sample_incremental_events"
  by (simp add: sync_def incrementalSync_def incrementalSync_try_def incrementalSync_apply_def
      incrementalSync_finish_def try_catch_finally_def
      processDocuments_def await_def perform_def resolve_def set_status_def Let_def
      new_SyncService_def sample_co_def sample_collaborators_def sample_world0_def
      sample_cursor_service_def sample_incremental_events_def
      sample_separate no_changes_def sample_skipped sample_assemble_hello sample_make_note)
    (simp add: sample_changes_def)

text \<open>
  An incremental pass with one changed and one deleted record: \<open>saveMany\<close> and
  \<open>deleteMany\<close> at positions 2 and 3, \<open>updateState\<close> at position 4.
\<close>

theorem cursor_written_after_note_writes_witness:
  "trace (snd (sync sample_co sample_cursor_service))
     = trace sample_cursor_service @ sample_incremental_events
   \<and> is_cursor_write (ev_call (sample_incremental_events ! 4))
   \<and> is_note_write (ev_call (sample_incremental_events ! 2))
   \<and> is_note_write (ev_call (sample_incremental_events ! 3))
   \<and> ev_resolved (sample_incremental_events ! 2)
   \<and> ev_resolved (sample_incremental_events ! 3)"
proof -
  have len: "4 < length sample_incremental_events" "2 < length sample_incremental_events"
    "3 < length sample_incremental_events"
    by (simp_all add: sample_incremental_events_def)
  have cw: "is_cursor_write (ev_call (sample_incremental_events ! 4))"
    by (simp add: sample_incremental_events_def)
  have nw: "is_note_write (ev_call (sample_incremental_events ! 2))"
    "is_note_write (ev_call (sample_incremental_events ! 3))"
    by (simp_all add: sample_incremental_events_def)
  from cursor_written_after_note_writes [OF sample_incremental_run len(1) cw len(2) nw(1)]
    cursor_written_after_note_writes [OF sample_incremental_run len(1) cw len(3) nw(2)]
  show ?thesis using sample_incremental_run cw nw by simp
qed




text \<open>
  Claim C4 fails on the code.  With a persisted cursor \<open>42-abc\<close> and an empty repository,
  \<open>initialize\<close> never asks the repository for its count and never resets the state: it
  loads the cursor, and the next \<open>sync()\<close> is an incremental one (\<open>getChanges\<close> since
  \<open>42-abc\<close>, no \<open>getAllDocuments\<close>).
\<close>

theorem initialize_keeps_cursor_of_empty_repository:
  "MemoryNoteRepository_count (sw_notes stale_cursor_world) = 0
   \<and> state_lastSeq (sw_state stale_cursor_world) = Some ''42-abc''
   \<and> fst (initialize sample_co (new_SyncService stale_cursor_world)) = Inr ()
   \<and> lastSeq (status (snd (initialize sample_co (new_SyncService stale_cursor_world)))) = Some ''42-abc''
   \<and> sw_state (world (snd (initialize sample_co (new_SyncService stale_cursor_world))))
        = sw_state stale_cursor_world
   \<and> map ev_call (trace (snd (sync sample_co (snd (initialize sample_co (new_SyncService stale_cursor_world))))))
        = [GetState, GetChanges (Some ''42-abc''), AssembleDocument hello_doc, SaveMany [hello_note],
           DeleteMany [''gone.md''],
           UpdateState \<lparr>state_lastSeq = Some ''124-def'', state_lastSyncTime = Some 1700\<rparr>, Count]"
  by (simp add: initialize_def sync_def incrementalSync_def incrementalSync_try_def incrementalSync_apply_def
      incrementalSync_finish_def try_catch_finally_def
      processDocuments_def await_def perform_def resolve_def set_status_def Let_def
      new_SyncService_def sample_co_def sample_collaborators_def stale_cursor_world_def
      MemoryNoteRepository_count_def
      sample_separate no_changes_def sample_skipped sample_assemble_hello sample_make_note)
    (simp add: sample_changes_def)

end
